theory Spec2Isabelle
  imports Main
begin

section \<open>withToken: the interceptors of src/index.ts\<close>

text \<open>
  \<^verbatim>\<open>withToken(axiosInstance, options)\<close> installs a request interceptor (lines 92-101) and a
  response interceptor (lines 104-185) on an axios instance. Both share the closure variables
  \<^verbatim>\<open>isRefreshing\<close> and \<^verbatim>\<open>failedQueue\<close> (lines 76-77).

  The interceptors are async functions. JavaScript runs one of them at a time, from one
  \<^verbatim>\<open>await\<close> to the next, so the model is a transition system: a state holds the closure
  variables and, for every invocation of the response-error interceptor, the \<^verbatim>\<open>await\<close> it
  is suspended at; an event is what the environment does (axios hands an error to the
  interceptor, or a promise the interceptor awaits settles); a step runs the code up to
  the next \<^verbatim>\<open>await\<close>. Calls to the external collaborators (the store functions, the
  refresh POST, the reissued request, the failure callback) are recorded in a log, in the
  order the code makes them.

  What is outside the code is left to the environment. The store functions and the
  callback return promises, as their types say, so each of their calls is followed by a
  suspension; how a promise settles is an event. A request that the code reissues, and
  the refresh call, are requests of the same axios instance: when one of them fails,
  axios calls the response-error interceptor again, with the request descriptor it was
  given, and that is an event like the failure of any other request.
\<close>

subsection \<open>Values\<close>

text \<open>
  What a store function resolves with has the type \<^verbatim>\<open>string | null\<close>: a \<open>string option\<close>,
  where \<open>None\<close> is \<^verbatim>\<open>null\<close>. \<open>truthy\<close> is JavaScript's truthiness on such a value (\<^verbatim>\<open>null\<close>
  and the empty string are falsy), and \<open>template\<close> is what a template literal prints for it.
\<close>

fun truthy :: "string option \<Rightarrow> bool" where
  "truthy None = False"
| "truthy (Some s) = (s \<noteq> [])"

fun template :: "string option \<Rightarrow> string" where
  "template None = ''null''"
| "template (Some s) = s"

text \<open>
  What the response adapter yields is typed \<^verbatim>\<open>string\<close>, but it is read from a body of type
  \<^verbatim>\<open>any\<close>: a field may be absent (\<^verbatim>\<open>undefined\<close>), \<^verbatim>\<open>null\<close> or a string. The code tests such a
  value for truthiness (line 84) and prints it in template literals (lines 155 and 160),
  where \<^verbatim>\<open>undefined\<close> and \<^verbatim>\<open>null\<close> print as their names.
\<close>

datatype js_value = Undefined | Null | Str string

fun truthy_value :: "js_value \<Rightarrow> bool" where
  "truthy_value Undefined = False"
| "truthy_value Null = False"
| "truthy_value (Str s) = (s \<noteq> [])"

fun template_value :: "js_value \<Rightarrow> string" where
  "template_value Undefined = ''undefined''"
| "template_value Null = ''null''"
| "template_value (Str s) = s"

text \<open>
  A rejection reason: an \<^verbatim>\<open>AxiosError\<close> with its \<^verbatim>\<open>error.response?.status\<close>, an \<^verbatim>\<open>Error\<close> with
  its message, the \<^verbatim>\<open>TypeError\<close> of a property access on \<^verbatim>\<open>null\<close> or \<^verbatim>\<open>undefined\<close>, or a string
  that was thrown or passed to \<^verbatim>\<open>reject\<close> (JavaScript lets any value be a reason). Error
  objects are truthy; a string is truthy when it is not empty. The code tests a reason for
  truthiness on line 82 only, where it treats \<^verbatim>\<open>undefined\<close>, \<^verbatim>\<open>null\<close>, \<^verbatim>\<open>false\<close> and \<^verbatim>\<open>0\<close> as it
  treats the empty string, which stands for them here. (\<^verbatim>\<open>null\<close> and \<^verbatim>\<open>undefined\<close> are not
  values of this type because it is also the type of the handler's parameter, which line
  106 declares an \<^verbatim>\<open>AxiosError\<close> and on which line 107 reads a property.) A string has no
  \<^verbatim>\<open>response\<close> property, so its status reads \<^verbatim>\<open>undefined\<close>.
\<close>

datatype error = AxiosError "nat option" | Error string | TypeError | Thrown string

fun response_status :: "error \<Rightarrow> nat option" where
  "response_status (AxiosError st) = st"
| "response_status (Error m) = None"
| "response_status TypeError = None"
| "response_status (Thrown v) = None"

fun truthy_error :: "error \<Rightarrow> bool" where
  "truthy_error (Thrown v) = (v \<noteq> [])"
| "truthy_error err = True"

text \<open>
  A request descriptor: its url, its headers object (which the code tests for presence on
  lines 95 and 159) with the one header the code writes, and the \<^verbatim>\<open>_retry\<close> marker.
\<close>

record axios_headers =
  Authorization :: "string option"

record request_config =
  url :: string
  headers :: "axios_headers option"
  retry :: bool

text \<open>
  The options of \<^verbatim>\<open>withToken\<close> that the code reads itself. The five store functions are external:
  their calls appear in the log and their results arrive as events. \<open>onRefreshFailure\<close> says
  whether a callback was configured. An adapter is caller-supplied code and may throw.
\<close>

record ('r, 'p) options =
  refreshTokenEndpoint :: string
  onRefreshFailure :: bool
  authHeaderPrefix :: string
  refreshTokenResponseAdapter :: "'r \<Rightarrow> error + (js_value \<times> js_value)"
  refreshTokenPayloadAdapter :: "string \<Rightarrow> error + 'p"

text \<open>
  The defaults of lines 67-72. The body of the refresh response (\<^verbatim>\<open>response.data\<close>) is
  \<^verbatim>\<open>null\<close> or \<^verbatim>\<open>undefined\<close>, or an object: a list of fields and values. Reading a field of an
  object that does not have it gives \<^verbatim>\<open>undefined\<close>; reading a field of \<^verbatim>\<open>null\<close> or \<^verbatim>\<open>undefined\<close>
  throws a \<^verbatim>\<open>TypeError\<close>, which line 164 catches. (A body that is a string or a number
  reads like an object without fields.) The default payload is the object
  \<^verbatim>\<open>{ refreshToken }\<close>.
\<close>

datatype body = Nullish | Object "(string \<times> js_value) list"

type_synonym json_object = "(string \<times> string) list"

definition field :: "(string \<times> js_value) list \<Rightarrow> string \<Rightarrow> js_value" where
  "field obj name = (case map_of obj name of None \<Rightarrow> Undefined | Some v \<Rightarrow> v)"

definition default_authHeaderPrefix :: string where
  "default_authHeaderPrefix = ''Bearer ''"

fun default_refreshTokenResponseAdapter :: "body \<Rightarrow> error + (js_value \<times> js_value)" where
  "default_refreshTokenResponseAdapter Nullish = Inl TypeError"
| "default_refreshTokenResponseAdapter (Object res) =
     Inr (if truthy_value (field res ''token'') then field res ''token''
          else field res ''accessToken'',
          field res ''refreshToken'')"

definition default_refreshTokenPayloadAdapter :: "string \<Rightarrow> error + json_object" where
  "default_refreshTokenPayloadAdapter refreshToken = Inr [(''refreshToken'', refreshToken)]"

definition default_options :: "string \<Rightarrow> bool \<Rightarrow> (body, json_object) options" where
  "default_options endpoint callback =
     \<lparr>refreshTokenEndpoint = endpoint,
      onRefreshFailure = callback,
      authHeaderPrefix = default_authHeaderPrefix,
      refreshTokenResponseAdapter = default_refreshTokenResponseAdapter,
      refreshTokenPayloadAdapter = default_refreshTokenPayloadAdapter\<rparr>"

subsection \<open>The request interceptor (lines 92-101)\<close>

text \<open>
  The first argument is how \<^verbatim>\<open>await getTokenFn()\<close> ended: \<open>Inl\<close> when the promise rejected,
  \<open>Inr\<close> with the token otherwise. The interceptor makes no other external call.
\<close>

definition request_interceptor ::
    "('r, 'p) options \<Rightarrow> error + string option \<Rightarrow> request_config \<Rightarrow> error + request_config" where
  "request_interceptor opts getToken_result config =
     (case getToken_result of
        Inl err \<Rightarrow> Inl err
      | Inr token \<Rightarrow>
          (case headers config of
             Some h \<Rightarrow>
               if truthy token
               then Inr (config\<lparr>headers :=
                      Some (h\<lparr>Authorization := Some (authHeaderPrefix opts @ template token)\<rparr>)\<rparr>)
               else Inr config
           | None \<Rightarrow> Inr config))"

subsection \<open>The state of an augmented client\<close>

type_synonym tid = nat

datatype 'p effect =
    Call_getRefreshTokenFn
  | Call_post string 'p
  | Call_setTokenFn js_value
  | Call_setRefreshTokenFn js_value
  | Call_removeTokenFn
  | Call_onRefreshFailure error
  | Call_axios request_config
  | Queue_resolve tid string
  | Queue_reject tid error

text \<open>
  What an invocation of the response-error interceptor has returned: the promise of the
  reissued request (\<^verbatim>\<open>return axiosInstance(originalRequest)\<close>) or a rejection.
\<close>

datatype result = Retried | Rejected error

text \<open>
  Where an invocation stands: suspended at one of the \<^verbatim>\<open>await\<close>s of lines 118, 132, 139, 149,
  150, 169 and 173 (with the local variables the rest of the function reads), or returned.
\<close>

datatype continuation =
    Await_queue
  | Await_getRefreshTokenFn
  | Await_post
  | Await_setTokenFn js_value js_value
  | Await_setRefreshTokenFn js_value
  | Await_removeTokenFn error
  | Await_onRefreshFailure error
  | Returned result

record task =
  originalRequest :: request_config
  pc :: continuation

text \<open>
  A \<^verbatim>\<open>QueueItem\<close> is the pair of callbacks of the promise one invocation awaits on line 118;
  the queue holds the number of that invocation.
\<close>

record 'p state =
  isRefreshing :: bool
  failedQueue :: "tid list"
  tasks :: "task list"
  defaults_Authorization :: "string option"
  effects :: "'p effect list"

definition init :: "'p state" where
  "init = \<lparr>isRefreshing = False, failedQueue = [], tasks = [],
           defaults_Authorization = None, effects = []\<rparr>"

datatype 'r outcome =
    Reject error
  | Fulfil_void
  | Fulfil_string "string option"
  | Fulfil_response 'r

datatype 'r event =
    Response_error error request_config
  | Settle tid "'r outcome"

definition call :: "'p effect \<Rightarrow> 'p state \<Rightarrow> 'p state" where
  "call e s = s\<lparr>effects := effects s @ [e]\<rparr>"

definition suspend :: "tid \<Rightarrow> continuation \<Rightarrow> 'p state \<Rightarrow> 'p state" where
  "suspend t k s = s\<lparr>tasks := (tasks s)[t := (tasks s ! t)\<lparr>pc := k\<rparr>]\<rparr>"

subsection \<open>processQueue (lines 80-89)\<close>

text \<open>
  Calling \<^verbatim>\<open>prom.reject\<close> or \<^verbatim>\<open>prom.resolve\<close> settles the promise of a suspended invocation;
  that invocation continues later, as a microtask, once the running code has reached its own
  \<^verbatim>\<open>await\<close> or returned. \<open>forEach_prom\<close> is the loop over the queue: it yields the
  settlements in the order they are made. The first argument is \<open>None\<close> for the \<^verbatim>\<open>null\<close> of
  line 156; the callback of lines 82-86 rejects when the error is truthy, resolves when it
  is not and the token is truthy, and does nothing otherwise.
\<close>

type_synonym wakeup = "tid \<times> (error + string)"

definition settle_prom :: "error option \<Rightarrow> js_value \<Rightarrow> tid \<Rightarrow> wakeup list" where
  "settle_prom error token prom =
     (case error of
        Some e \<Rightarrow>
          if truthy_error e then [(prom, Inl e)]
          else if truthy_value token then [(prom, Inr (template_value token))]
          else []
      | None \<Rightarrow> if truthy_value token then [(prom, Inr (template_value token))] else [])"

fun forEach_prom :: "error option \<Rightarrow> js_value \<Rightarrow> tid list \<Rightarrow> wakeup list" where
  "forEach_prom error token [] = []"
| "forEach_prom error token (prom # rest) =
     settle_prom error token prom @ forEach_prom error token rest"

fun settlement :: "wakeup \<Rightarrow> 'p effect" where
  "settlement (prom, Inl e) = Queue_reject prom e"
| "settlement (prom, Inr token) = Queue_resolve prom token"

definition processQueue ::
    "error option \<Rightarrow> js_value \<Rightarrow> 'p state \<Rightarrow> 'p state \<times> wakeup list" where
  "processQueue error token s =
     (let ws = forEach_prom error token (failedQueue s)
      in (s\<lparr>failedQueue := [], effects := effects s @ map settlement ws\<rparr>, ws))"

subsection \<open>The response-error interceptor (lines 106-184)\<close>

text \<open>Lines 106-132: from the call of the interceptor to its first \<^verbatim>\<open>await\<close> or return.\<close>

definition on_rejected :: "error \<Rightarrow> request_config \<Rightarrow> 'p state \<Rightarrow> 'p state" where
  "on_rejected error config s =
     (if response_status error = Some 401 \<and> \<not> retry config then
        (let originalRequest = config\<lparr>retry := True\<rparr> in
         if isRefreshing s then
           s\<lparr>failedQueue := failedQueue s @ [length (tasks s)],
             tasks := tasks s @ [\<lparr>originalRequest = originalRequest, pc = Await_queue\<rparr>]\<rparr>
         else
           call Call_getRefreshTokenFn
             (s\<lparr>isRefreshing := True,
                tasks := tasks s @
                  [\<lparr>originalRequest = originalRequest, pc = Await_getRefreshTokenFn\<rparr>]\<rparr>))
      else
        s\<lparr>tasks := tasks s @ [\<lparr>originalRequest = config, pc = Returned (Rejected error)\<rparr>]\<rparr>)"

text \<open>Lines 164-169: the catch block up to \<^verbatim>\<open>await removeTokenFn()\<close>.\<close>

definition catch_block :: "tid \<Rightarrow> error \<Rightarrow> 'p state \<Rightarrow> 'p state \<times> wakeup list" where
  "catch_block t err s =
     (case processQueue (Some err) Null s of
        (s', ws) \<Rightarrow> (suspend t (Await_removeTokenFn err) (call Call_removeTokenFn s'), ws))"

text \<open>Lines 177-179 and the return: the finally block runs before the function returns.\<close>

definition finally_return :: "tid \<Rightarrow> result \<Rightarrow> 'p state \<Rightarrow> 'p state" where
  "finally_return t res s = (suspend t (Returned res) s)\<lparr>isRefreshing := False\<rparr>"

text \<open>Lines 152-163: after both setters have fulfilled.\<close>

definition refreshed :: "('r, 'p) options \<Rightarrow> tid \<Rightarrow> js_value \<Rightarrow> 'p state \<Rightarrow> 'p state \<times> wakeup list" where
  "refreshed opts t newToken s =
     (case processQueue None newToken
             (s\<lparr>defaults_Authorization :=
                  Some (authHeaderPrefix opts @ template_value newToken)\<rparr>) of
        (s', ws) \<Rightarrow>
          (let config = originalRequest (tasks s' ! t);
               config' = (case headers config of
                            Some h \<Rightarrow> config\<lparr>headers :=
                              Some (h\<lparr>Authorization :=
                                Some (authHeaderPrefix opts @ template_value newToken)\<rparr>)\<rparr>
                          | None \<Rightarrow> config)
           in (finally_return t Retried
                 (call (Call_axios config')
                    (s'\<lparr>tasks := (tasks s')[t := (tasks s' ! t)\<lparr>originalRequest := config'\<rparr>]\<rparr>)),
               ws)))"

text \<open>
  The code between two \<^verbatim>\<open>await\<close>s of the refreshing invocation, lines 132-179. A settlement
  whose value does not have the type the awaited call declares is not an event of the
  model, and neither is one for an invocation that awaits its queue item or has returned
  (last equation).
\<close>

fun continue ::
    "('r, 'p) options \<Rightarrow> tid \<Rightarrow> continuation \<Rightarrow> 'r outcome \<Rightarrow> 'p state \<Rightarrow> 'p state \<times> wakeup list" where
  "continue opts t Await_getRefreshTokenFn (Reject err) s = catch_block t err s"
| "continue opts t Await_getRefreshTokenFn (Fulfil_string refreshToken) s =
     (if \<not> truthy refreshToken then catch_block t (Error ''No refresh token available'') s
      else
        (case refreshTokenPayloadAdapter opts (template refreshToken) of
           Inl err \<Rightarrow> catch_block t err s
         | Inr payload \<Rightarrow>
             (suspend t Await_post (call (Call_post (refreshTokenEndpoint opts) payload) s), [])))"
| "continue opts t Await_post (Reject err) s = catch_block t err s"
| "continue opts t Await_post (Fulfil_response data) s =
     (case refreshTokenResponseAdapter opts data of
        Inl err \<Rightarrow> catch_block t err s
      | Inr (newToken, newRefreshToken) \<Rightarrow>
          (suspend t (Await_setTokenFn newToken newRefreshToken)
             (call (Call_setTokenFn newToken) s), []))"
| "continue opts t (Await_setTokenFn newToken newRefreshToken) (Reject err) s =
     catch_block t err s"
| "continue opts t (Await_setTokenFn newToken newRefreshToken) Fulfil_void s =
     (suspend t (Await_setRefreshTokenFn newToken)
        (call (Call_setRefreshTokenFn newRefreshToken) s), [])"
| "continue opts t (Await_setRefreshTokenFn newToken) (Reject err) s = catch_block t err s"
| "continue opts t (Await_setRefreshTokenFn newToken) Fulfil_void s = refreshed opts t newToken s"
| "continue opts t (Await_removeTokenFn err) (Reject err') s =
     (finally_return t (Rejected err') s, [])"
| "continue opts t (Await_removeTokenFn err) Fulfil_void s =
     (if onRefreshFailure opts
      then (suspend t (Await_onRefreshFailure err) (call (Call_onRefreshFailure err) s), [])
      else (finally_return t (Rejected err) s, []))"
| "continue opts t (Await_onRefreshFailure err) (Reject err') s =
     (finally_return t (Rejected err') s, [])"
| "continue opts t (Await_onRefreshFailure err) Fulfil_void s =
     (finally_return t (Rejected err) s, [])"
| "continue opts t k out s = (s, [])"

text \<open>
  Lines 121-125: an invocation suspended on line 118 continues with its settlement. It
  returns the reissued request, or a rejection (the \<^verbatim>\<open>TypeError\<close> of line 121 is caught on
  line 123).
\<close>

definition continue_queued ::
    "('r, 'p) options \<Rightarrow> error + string \<Rightarrow> task \<Rightarrow> task \<times> 'p effect list" where
  "continue_queued opts v task =
     (case v of
        Inl err \<Rightarrow> (task\<lparr>pc := Returned (Rejected err)\<rparr>, [])
      | Inr token \<Rightarrow>
          (case headers (originalRequest task) of
             None \<Rightarrow> (task\<lparr>pc := Returned (Rejected TypeError)\<rparr>, [])
           | Some h \<Rightarrow>
               (let config' = (originalRequest task)\<lparr>headers :=
                      Some (h\<lparr>Authorization := Some (authHeaderPrefix opts @ token)\<rparr>)\<rparr>
                in (\<lparr>originalRequest = config', pc = Returned Retried\<rparr>,
                    [Call_axios config']))))"

definition wake :: "('r, 'p) options \<Rightarrow> wakeup \<Rightarrow> 'p state \<Rightarrow> 'p state" where
  "wake opts w s =
     (case w of (t, v) \<Rightarrow>
        if t < length (tasks s) \<and> pc (tasks s ! t) = Await_queue then
          (case continue_queued opts v (tasks s ! t) of
             (task', es) \<Rightarrow> s\<lparr>tasks := (tasks s)[t := task'], effects := effects s @ es\<rparr>)
        else s)"

text \<open>
  A step. When the promise that invocation \<open>t\<close> awaits settles, its code runs to the next
  \<^verbatim>\<open>await\<close> or to its return; then the invocations whose queue items it has settled
  continue, in the order of the settlements. When axios hands a response error to the
  interceptor, a new invocation runs to its first \<^verbatim>\<open>await\<close> or to its return; its number is
  its position in \<open>tasks\<close>. An execution is a list of events, run from a state.
\<close>

definition resume :: "('r, 'p) options \<Rightarrow> tid \<Rightarrow> 'r outcome \<Rightarrow> 'p state \<Rightarrow> 'p state" where
  "resume opts t out s =
     (if t < length (tasks s) then
        (case continue opts t (pc (tasks s ! t)) out s of
           (s', ws) \<Rightarrow> fold (wake opts) ws s')
      else s)"

fun step :: "('r, 'p) options \<Rightarrow> 'p state \<Rightarrow> 'r event \<Rightarrow> 'p state" where
  "step opts s (Response_error error config) = on_rejected error config s"
| "step opts s (Settle t out) = resume opts t out s"

definition run :: "('r, 'p) options \<Rightarrow> 'p state \<Rightarrow> 'r event list \<Rightarrow> 'p state" where
  "run opts s evs = foldl (step opts) s evs"

section \<open>Vocabulary of the properties\<close>

text \<open>
  An invocation is refreshing from line 128 until its finally block has run: it is the
  driver of a refresh attempt.
\<close>

fun refreshing :: "continuation \<Rightarrow> bool" where
  "refreshing Await_queue = False"
| "refreshing (Returned res) = False"
| "refreshing k = True"

definition refreshes_in_flight :: "'p state \<Rightarrow> nat" where
  "refreshes_in_flight s = length (filter (\<lambda>task. refreshing (pc task)) (tasks s))"

text \<open>
  The number of an invocation is its position in the order of the calls of the
  interceptor, so a queue whose numbers increase holds its waiters in the order in which
  they were pushed. The waiters of the queue are suspended on line 118.
\<close>

definition queue_suspended :: "'p state \<Rightarrow> bool" where
  "queue_suspended s =
     (sorted_wrt (<) (failedQueue s) \<and>
      list_all (\<lambda>q. q < length (tasks s) \<and> pc (tasks s ! q) = Await_queue) (failedQueue s))"

definition single_flight :: "'p state \<Rightarrow> bool" where
  "single_flight s = (refreshes_in_flight s = (if isRefreshing s then 1 else 0))"

text \<open>
  A reissued request carries the retry marker; so does the request of every invocation
  that has not returned a rejection. Every invocation reissues its request at most once:
  the reissued requests are as many as the invocations that returned one.
\<close>

fun marked :: "'p effect \<Rightarrow> bool" where
  "marked (Call_axios config) = retry config"
| "marked e = True"

fun rejected :: "continuation \<Rightarrow> bool" where
  "rejected (Returned (Rejected err)) = True"
| "rejected k = False"

definition retry_marked :: "'p state \<Rightarrow> bool" where
  "retry_marked s =
     (list_all (\<lambda>task. rejected (pc task) \<or> retry (originalRequest task)) (tasks s) \<and>
      list_all marked (effects s))"

fun reissue :: "'p effect \<Rightarrow> bool" where
  "reissue (Call_axios config) = True"
| "reissue e = False"

definition reissues :: "'p state \<Rightarrow> nat" where
  "reissues s = length (filter reissue (effects s))"

definition retried_invocations :: "'p state \<Rightarrow> nat" where
  "retried_invocations s = length (filter (\<lambda>task. pc task = Returned Retried) (tasks s))"

text \<open>
  A step of the refresh protocol fails with an error: one of the four awaited promises
  rejects, the store has no refresh token, or an adapter throws. The promise of the refresh
  call does not reject with a 401 response: that response goes through the response-error
  interceptor of this same client, which suspends on line 118 instead of rejecting.
\<close>

inductive refresh_fails ::
    "('r, 'p) options \<Rightarrow> continuation \<Rightarrow> 'r outcome \<Rightarrow> error \<Rightarrow> bool" for opts where
  getRefreshTokenFn_rejects:
    "refresh_fails opts Await_getRefreshTokenFn (Reject err) err"
| no_refresh_token:
    "\<not> truthy refreshToken \<Longrightarrow>
     refresh_fails opts Await_getRefreshTokenFn (Fulfil_string refreshToken)
       (Error ''No refresh token available'')"
| payload_adapter_throws:
    "truthy refreshToken \<Longrightarrow>
     refreshTokenPayloadAdapter opts (template refreshToken) = Inl err \<Longrightarrow>
     refresh_fails opts Await_getRefreshTokenFn (Fulfil_string refreshToken) err"
| post_rejects:
    "response_status err \<noteq> Some 401 \<Longrightarrow> refresh_fails opts Await_post (Reject err) err"
| response_adapter_throws:
    "refreshTokenResponseAdapter opts data = Inl err \<Longrightarrow>
     refresh_fails opts Await_post (Fulfil_response data) err"
| setTokenFn_rejects:
    "refresh_fails opts (Await_setTokenFn newToken newRefreshToken) (Reject err) err"
| setRefreshTokenFn_rejects:
    "refresh_fails opts (Await_setRefreshTokenFn newToken) (Reject err) err"

text \<open>
  A request descriptor with its Authorization header set to the prefix followed by a
  token, when it has a headers object (lines 159-161).
\<close>

definition authorized :: "('r, 'p) options \<Rightarrow> string \<Rightarrow> request_config \<Rightarrow> request_config" where
  "authorized opts token config =
     (case headers config of
        Some h \<Rightarrow> config\<lparr>headers :=
          Some (h\<lparr>Authorization := Some (authHeaderPrefix opts @ token)\<rparr>)\<rparr>
      | None \<Rightarrow> config)"

text \<open>Response errors that axios hands to the interceptor, one after the other.\<close>

definition arrivals :: "(error \<times> request_config) list \<Rightarrow> 'r event list" where
  "arrivals rs = map (\<lambda>(error, config). Response_error error config) rs"

text \<open>The calls of the refresh endpoint in a log.\<close>

fun refresh_call :: "'p effect \<Rightarrow> bool" where
  "refresh_call (Call_post endpoint payload) = True"
| "refresh_call e = False"

text \<open>
  A refresh cycle under way. Request \<open>c0\<close> has failed with 401 while no refresh was
  active, and its invocation, number \<open>d\<close>, drives the refresh. \<open>evs\<close> are the events since
  then, the driver stands at \<open>k\<close>, \<open>ws\<close> are the requests that wait in the queue, with
  the numbers of their invocations, in the order of their failures, \<open>n\<close> invocations have
  been called so far, and \<open>es\<close> are the external calls the cycle has made. While the
  driver goes through the protocol, other requests fail with 401 and are enqueued (a 401
  on the refresh call itself is left out), other response errors are propagated, the
  store yields a refresh credential for which the payload adapter returns, the refresh
  call is answered with a body for which the response adapter returns, and the first
  setter fulfils.
\<close>

inductive in_cycle ::
    "('r, 'p) options \<Rightarrow> tid \<Rightarrow> request_config \<Rightarrow> 'r event list \<Rightarrow> continuation \<Rightarrow>
     (tid \<times> request_config) list \<Rightarrow> nat \<Rightarrow> 'p effect list \<Rightarrow> bool"
    for opts d c0 where
  start:
    "response_status error = Some 401 \<Longrightarrow> \<not> retry c0 \<Longrightarrow>
     in_cycle opts d c0 [Response_error error c0] Await_getRefreshTokenFn [] (Suc d)
       [Call_getRefreshTokenFn]"
| arrive:
    "in_cycle opts d c0 evs k ws n es \<Longrightarrow>
     response_status error = Some 401 \<Longrightarrow> \<not> retry c \<Longrightarrow> url c \<noteq> refreshTokenEndpoint opts \<Longrightarrow>
     in_cycle opts d c0 (evs @ [Response_error error c]) k (ws @ [(n, c)]) (Suc n) es"
| other:
    "in_cycle opts d c0 evs k ws n es \<Longrightarrow>
     response_status error \<noteq> Some 401 \<or> retry c \<Longrightarrow>
     in_cycle opts d c0 (evs @ [Response_error error c]) k ws (Suc n) es"
| refresh_token_read:
    "in_cycle opts d c0 evs Await_getRefreshTokenFn ws n es \<Longrightarrow>
     truthy refreshToken \<Longrightarrow>
     refreshTokenPayloadAdapter opts (template refreshToken) = Inr payload \<Longrightarrow>
     in_cycle opts d c0 (evs @ [Settle d (Fulfil_string refreshToken)]) Await_post ws n
       (es @ [Call_post (refreshTokenEndpoint opts) payload])"
| refresh_call_answered:
    "in_cycle opts d c0 evs Await_post ws n es \<Longrightarrow>
     refreshTokenResponseAdapter opts data = Inr (newToken, newRefreshToken) \<Longrightarrow>
     in_cycle opts d c0 (evs @ [Settle d (Fulfil_response data)])
       (Await_setTokenFn newToken newRefreshToken) ws n (es @ [Call_setTokenFn newToken])"
| token_stored:
    "in_cycle opts d c0 evs (Await_setTokenFn newToken newRefreshToken) ws n es \<Longrightarrow>
     in_cycle opts d c0 (evs @ [Settle d Fulfil_void]) (Await_setRefreshTokenFn newToken) ws n
       (es @ [Call_setRefreshTokenFn newRefreshToken])"

text \<open>
  The code between two awaits of a refreshing invocation does one of five things: nothing
  (the settlement does not concern it), one external call followed by the next await, the
  catch block, the success path of lines 152-163, or a return through the finally block.
\<close>

inductive shape ::
    "('r, 'p) options \<Rightarrow> tid \<Rightarrow> continuation \<Rightarrow> 'p state \<Rightarrow> 'p state \<times> wakeup list \<Rightarrow> bool"
    for opts t where
  idle: "shape opts t k s (s, [])"
| next_await: "refreshing k \<Longrightarrow> refreshing k' \<Longrightarrow> (\<forall>c. e \<noteq> Call_axios c) \<Longrightarrow>
     shape opts t k s (suspend t k' (call e s), [])"
| catch: "refreshing k \<Longrightarrow> shape opts t k s (catch_block t err s)"
| success: "shape opts t (Await_setRefreshTokenFn newToken) s (refreshed opts t newToken s)"
| leave: "refreshing k \<Longrightarrow> shape opts t k s (finally_return t (Rejected err) s, [])"

section \<open>Lemmas about the model\<close>

lemma run_Nil [simp]: "run opts s [] = s"
  by (simp add: run_def)

lemma run_Cons [simp]: "run opts s (ev # evs) = run opts (step opts s ev) evs"
  by (simp add: run_def)

lemma run_append: "run opts s (evs @ evs') = run opts (run opts s evs) evs'"
  by (simp add: run_def)

lemma run_snoc: "run opts s (evs @ [ev]) = step opts (run opts s evs) ev"
  by (simp add: run_def)

lemma call_fields [simp]:
  "isRefreshing (call e s) = isRefreshing s"
  "failedQueue (call e s) = failedQueue s"
  "tasks (call e s) = tasks s"
  "defaults_Authorization (call e s) = defaults_Authorization s"
  "effects (call e s) = effects s @ [e]"
  by (simp_all add: call_def)

lemma suspend_fields [simp]:
  "isRefreshing (suspend t k s) = isRefreshing s"
  "failedQueue (suspend t k s) = failedQueue s"
  "tasks (suspend t k s) = (tasks s)[t := (tasks s ! t)\<lparr>pc := k\<rparr>]"
  "defaults_Authorization (suspend t k s) = defaults_Authorization s"
  "effects (suspend t k s) = effects s"
  by (simp_all add: suspend_def)

lemma forEach_prom_error:
  "forEach_prom (Some e) Null q = map (\<lambda>p. (p, Inl e)) (if truthy_error e then q else [])"
  by (induction q) (simp_all add: settle_prom_def)

lemma forEach_prom_token:
  "truthy_value tok \<Longrightarrow>
   forEach_prom None tok q = map (\<lambda>p. (p, Inr (template_value tok))) q"
  by (induction q) (simp_all add: settle_prom_def)

lemma forEach_prom_falsy: "\<not> truthy_value tok \<Longrightarrow> forEach_prom None tok q = []"
  by (induction q) (simp_all add: settle_prom_def)

lemma catch_block_eq:
  "catch_block t err s =
     (s\<lparr>failedQueue := [],
        tasks := (tasks s)[t := (tasks s ! t)\<lparr>pc := Await_removeTokenFn err\<rparr>],
        effects := effects s
          @ map (\<lambda>q. Queue_reject q err) (if truthy_error err then failedQueue s else [])
          @ [Call_removeTokenFn]\<rparr>,
      map (\<lambda>q. (q, Inl err)) (if truthy_error err then failedQueue s else []))"
  by (simp add: catch_block_def processQueue_def forEach_prom_error call_def suspend_def
      comp_def)

lemma refreshed_eq:
  "truthy_value newToken \<Longrightarrow> t < length (tasks s) \<Longrightarrow> refreshed opts t newToken s =
     (let config = originalRequest (tasks s ! t);
          config' = (case headers config of
                       Some h \<Rightarrow> config\<lparr>headers :=
                         Some (h\<lparr>Authorization := Some (authHeaderPrefix opts @ template_value newToken)\<rparr>)\<rparr>
                     | None \<Rightarrow> config)
      in (s\<lparr>isRefreshing := False, failedQueue := [],
            tasks := (tasks s)[t := (tasks s ! t)\<lparr>originalRequest := config', pc := Returned Retried\<rparr>],
            defaults_Authorization := Some (authHeaderPrefix opts @ template_value newToken),
            effects := effects s @ map (\<lambda>q. Queue_resolve q (template_value newToken)) (failedQueue s)
                         @ [Call_axios config']\<rparr>,
          map (\<lambda>q. (q, Inr (template_value newToken))) (failedQueue s)))"
  by (simp add: refreshed_def processQueue_def forEach_prom_token call_def suspend_def
      finally_return_def comp_def Let_def split: option.splits)

lemma refreshed_falsy_eq:
  "\<not> truthy_value newToken \<Longrightarrow> t < length (tasks s) \<Longrightarrow> refreshed opts t newToken s =
     (let config = originalRequest (tasks s ! t);
          config' = (case headers config of
                       Some h \<Rightarrow> config\<lparr>headers :=
                         Some (h\<lparr>Authorization := Some (authHeaderPrefix opts @ template_value newToken)\<rparr>)\<rparr>
                     | None \<Rightarrow> config)
      in (s\<lparr>isRefreshing := False, failedQueue := [],
            tasks := (tasks s)[t := (tasks s ! t)\<lparr>originalRequest := config', pc := Returned Retried\<rparr>],
            defaults_Authorization := Some (authHeaderPrefix opts @ template_value newToken),
            effects := effects s @ [Call_axios config']\<rparr>,
          []))"
  by (simp add: refreshed_def processQueue_def forEach_prom_falsy call_def suspend_def
      finally_return_def comp_def Let_def split: option.splits)

lemma continue_queued_pc:
  "\<not> refreshing (pc (fst (continue_queued opts v task)))"
  "pc (fst (continue_queued opts v task)) \<noteq> Await_queue"
  by (auto simp: continue_queued_def Let_def split: sum.splits option.splits)

lemma wake_fields [simp]:
  "isRefreshing (wake opts w s) = isRefreshing s"
  "failedQueue (wake opts w s) = failedQueue s"
  "defaults_Authorization (wake opts w s) = defaults_Authorization s"
  "length (tasks (wake opts w s)) = length (tasks s)"
  by (auto simp: wake_def split: prod.splits)

lemma fold_wake_fields [simp]:
  "isRefreshing (fold (wake opts) ws s) = isRefreshing s"
  "failedQueue (fold (wake opts) ws s) = failedQueue s"
  "defaults_Authorization (fold (wake opts) ws s) = defaults_Authorization s"
  "length (tasks (fold (wake opts) ws s)) = length (tasks s)"
  by (induction ws arbitrary: s) simp_all

lemma wake_eq:
  "q < length (tasks s) \<Longrightarrow> pc (tasks s ! q) = Await_queue \<Longrightarrow>
   wake opts (q, v) s =
     s\<lparr>tasks := (tasks s)[q := fst (continue_queued opts v (tasks s ! q))],
       effects := effects s @ snd (continue_queued opts v (tasks s ! q))\<rparr>"
  by (simp add: wake_def split: prod.splits)

lemma wake_other:
  "i \<noteq> q \<Longrightarrow> tasks (wake opts (q, v) s) ! i = tasks s ! i"
  by (simp add: wake_def split: prod.splits)

lemma fold_wake_tasks:
  "distinct qs \<Longrightarrow> \<forall>q\<in>set qs. q < length (tasks s) \<and> pc (tasks s ! q) = Await_queue \<Longrightarrow>
   i < length (tasks s) \<Longrightarrow>
   tasks (fold (wake opts) (map (\<lambda>q. (q, v)) qs) s) ! i =
     (if i \<in> set qs then fst (continue_queued opts v (tasks s ! i)) else tasks s ! i)"
proof (induction qs arbitrary: s)
  case Nil
  then show ?case by simp
next
  case (Cons q qs)
  let ?s = "wake opts (q, v) s"
  have q: "q < length (tasks s)" "pc (tasks s ! q) = Await_queue" "q \<notin> set qs" "distinct qs"
    using Cons.prems by auto
  have rest: "\<forall>r\<in>set qs. r < length (tasks ?s) \<and> pc (tasks ?s ! r) = Await_queue"
    using Cons.prems q by (metis wake_other wake_fields(4) list.set_intros(2))
  have "tasks (fold (wake opts) (map (\<lambda>q. (q, v)) qs) ?s) ! i =
          (if i \<in> set qs then fst (continue_queued opts v (tasks ?s ! i)) else tasks ?s ! i)"
    using Cons.IH [OF q(4) rest] Cons.prems(3) by simp
  moreover have "i \<noteq> q \<Longrightarrow> tasks ?s ! i = tasks s ! i"
    by (simp add: wake_other)
  moreover have "tasks ?s ! q = fst (continue_queued opts v (tasks s ! q))"
    using q by (simp add: wake_eq)
  ultimately show ?case using q by (cases "i = q") auto
qed

lemma fold_wake_effects:
  "distinct qs \<Longrightarrow> \<forall>q\<in>set qs. q < length (tasks s) \<and> pc (tasks s ! q) = Await_queue \<Longrightarrow>
   effects (fold (wake opts) (map (\<lambda>q. (q, v)) qs) s) =
     effects s @ concat (map (\<lambda>q. snd (continue_queued opts v (tasks s ! q))) qs)"
proof (induction qs arbitrary: s)
  case Nil
  then show ?case by simp
next
  case (Cons q qs)
  let ?s = "wake opts (q, v) s"
  have q: "q < length (tasks s)" "pc (tasks s ! q) = Await_queue" "q \<notin> set qs" "distinct qs"
    using Cons.prems by auto
  have same: "\<forall>r\<in>set qs. tasks ?s ! r = tasks s ! r"
    using q by (metis wake_other)
  have rest: "\<forall>r\<in>set qs. r < length (tasks ?s) \<and> pc (tasks ?s ! r) = Await_queue"
    using Cons.prems same by auto
  have "effects (fold (wake opts) (map (\<lambda>q. (q, v)) qs) ?s) =
          effects ?s @ concat (map (\<lambda>q. snd (continue_queued opts v (tasks ?s ! q))) qs)"
    by (rule Cons.IH [OF q(4) rest])
  moreover have "map (\<lambda>q. snd (continue_queued opts v (tasks ?s ! q))) qs =
                 map (\<lambda>q. snd (continue_queued opts v (tasks s ! q))) qs"
    using same by simp
  moreover have "effects ?s = effects s @ snd (continue_queued opts v (tasks s ! q))"
    using q by (simp add: wake_eq)
  ultimately show ?case by simp
qed

lemma continue_shape: "shape opts t k s (continue opts t k out s)"
proof (cases k)
  case Await_getRefreshTokenFn
  then show ?thesis
    by (cases out) (auto split: sum.splits intro: shape.intros)
next
  case Await_post
  then show ?thesis
    by (cases out) (auto split: sum.splits prod.splits intro: shape.intros)
next
  case (Await_setTokenFn x y)
  then show ?thesis
    by (cases out) (auto intro: shape.intros)
next
  case (Await_setRefreshTokenFn x)
  then show ?thesis
    by (cases out) (auto intro: shape.intros)
next
  case (Await_removeTokenFn e)
  then show ?thesis
    by (cases out) (auto intro: shape.intros)
next
  case (Await_onRefreshFailure e)
  then show ?thesis
    by (cases out) (auto intro: shape.intros)
qed (simp_all add: shape.intros)

subsection \<open>Single flight\<close>

lemma filter_update_count:
  "i < length xs \<Longrightarrow>
   length (filter P (xs[i := y])) + (if P (xs ! i) then 1 else 0) =
   length (filter P xs) + (if P y then 1 else 0)"
proof (induction xs arbitrary: i)
  case Nil
  then show ?case by simp
next
  case (Cons x xs)
  then show ?case by (cases i) auto
qed

lemma in_flight_update:
  "t < length (tasks s) \<Longrightarrow> tasks s' = (tasks s)[t := x] \<Longrightarrow>
   refreshes_in_flight s' + (if refreshing (pc (tasks s ! t)) then 1 else 0) =
   refreshes_in_flight s + (if refreshing (pc x) then 1 else 0)"
  using filter_update_count [of t "tasks s" "\<lambda>task. refreshing (pc task)" x]
  by (simp add: refreshes_in_flight_def)

lemma in_flight_wake: "refreshes_in_flight (wake opts w s) = refreshes_in_flight s"
proof (cases w)
  case (Pair q v)
  show ?thesis
  proof (cases "q < length (tasks s) \<and> pc (tasks s ! q) = Await_queue")
    case True
    then show ?thesis
      using filter_update_count [of q "tasks s" "\<lambda>task. refreshing (pc task)"
          "fst (continue_queued opts v (tasks s ! q))"]
      by (simp add: Pair wake_eq refreshes_in_flight_def continue_queued_pc)
  next
    case False
    then show ?thesis by (auto simp: Pair wake_def)
  qed
qed

lemma in_flight_fold_wake: "refreshes_in_flight (fold (wake opts) ws s) = refreshes_in_flight s"
  by (induction ws arbitrary: s) (simp_all add: in_flight_wake)

lemma in_flight_positive:
  "t < length (tasks s) \<Longrightarrow> refreshing (pc (tasks s ! t)) \<Longrightarrow> 0 < refreshes_in_flight s"
  unfolding refreshes_in_flight_def
  by (metis (mono_tags, lifting) filter_empty_conv length_greater_0_conv nth_mem)

lemma in_flight_call [simp]: "refreshes_in_flight (call e s) = refreshes_in_flight s"
  by (simp add: refreshes_in_flight_def call_def)

lemma single_flight_on_rejected:
  "single_flight s \<Longrightarrow> single_flight (on_rejected error config s)"
  by (auto simp: single_flight_def refreshes_in_flight_def on_rejected_def call_def Let_def)

lemma resume_eq:
  "t < length (tasks s) \<Longrightarrow> continue opts t (pc (tasks s ! t)) out s = (s', ws) \<Longrightarrow>
   resume opts t out s = fold (wake opts) ws s'"
  by (simp add: resume_def)

lemma single_flight_resume:
  assumes "single_flight s"
  shows "single_flight (resume opts t out s)"
proof (cases "t < length (tasks s)")
  case False
  then show ?thesis using assms by (simp add: resume_def)
next
  case t: True
  let ?k = "pc (tasks s ! t)"
  have busy: "refreshing ?k \<Longrightarrow> isRefreshing s \<and> refreshes_in_flight s = 1"
    using in_flight_positive [OF t] assms by (auto simp: single_flight_def split: if_splits)
  obtain s' ws where c: "continue opts t ?k out s = (s', ws)"
    by (cases "continue opts t ?k out s")
  have r: "resume opts t out s = fold (wake opts) ws s'"
    using t c by (rule resume_eq)
  have goal: "single_flight (resume opts t out s) \<longleftrightarrow>
                refreshes_in_flight s' = (if isRefreshing s' then 1 else 0)"
    by (simp add: r single_flight_def in_flight_fold_wake)
  from continue_shape [of opts t ?k s out] show ?thesis
    unfolding c
  proof cases
    case idle
    then show ?thesis using assms goal by (simp add: single_flight_def)
  next
    case (next_await k' e)
    then show ?thesis
      using busy goal in_flight_update [OF t, of s' "(tasks s ! t)\<lparr>pc := k'\<rparr>"] by simp
  next
    case (catch err)
    then show ?thesis
      using busy goal
        in_flight_update [OF t, of s' "(tasks s ! t)\<lparr>pc := Await_removeTokenFn err\<rparr>"]
      by (simp add: catch_block_eq)
  next
    case (success newToken)
    then have k: "refreshing ?k" by simp
    show ?thesis
      using busy [OF k] goal success t
        in_flight_update [OF t, of s'
          "(tasks s ! t)\<lparr>originalRequest := originalRequest (tasks s' ! t), pc := Returned Retried\<rparr>"]
      by (cases "truthy_value newToken")
         (auto simp: refreshed_eq refreshed_falsy_eq Let_def)
  next
    case (leave err)
    then show ?thesis
      using busy goal
        in_flight_update [OF t, of s' "(tasks s ! t)\<lparr>pc := Returned (Rejected err)\<rparr>"]
      by (simp add: finally_return_def)
  qed
qed

lemma single_flight_step: "single_flight s \<Longrightarrow> single_flight (step opts s ev)"
  by (cases ev) (simp_all add: single_flight_on_rejected single_flight_resume)

lemma single_flight_run: "single_flight s \<Longrightarrow> single_flight (run opts s evs)"
  by (induction evs arbitrary: s) (simp_all add: single_flight_step)

lemma single_flight_init: "single_flight init"
  by (simp add: single_flight_def refreshes_in_flight_def init_def)

subsection \<open>The queue holds suspended invocations\<close>

lemma queue_suspended_on_rejected:
  "queue_suspended s \<Longrightarrow> queue_suspended (on_rejected error config s)"
  by (auto simp: queue_suspended_def on_rejected_def Let_def list_all_iff nth_append call_def
      sorted_wrt_append)

lemma queue_suspended_update:
  assumes "queue_suspended s" "t < length (tasks s)" "pc (tasks s ! t) \<noteq> Await_queue"
    and "tasks s' = (tasks s)[t := x]" "failedQueue s' = failedQueue s"
  shows "queue_suspended s'"
proof -
  have "\<forall>q\<in>set (failedQueue s). q \<noteq> t"
    using assms(1,3) by (auto simp: queue_suspended_def list_all_iff)
  then show ?thesis
    using assms by (auto simp: queue_suspended_def list_all_iff)
qed

lemma queue_suspended_empty: "failedQueue s = [] \<Longrightarrow> queue_suspended s"
  by (simp add: queue_suspended_def)

lemma refreshing_not_queue: "refreshing k \<Longrightarrow> k \<noteq> Await_queue"
  by auto

lemma queue_suspended_resume:
  assumes "queue_suspended s"
  shows "queue_suspended (resume opts t out s)"
proof (cases "t < length (tasks s)")
  case False
  then show ?thesis using assms by (simp add: resume_def)
next
  case t: True
  let ?k = "pc (tasks s ! t)"
  obtain s' ws where c: "continue opts t ?k out s = (s', ws)"
    by (cases "continue opts t ?k out s")
  have r: "resume opts t out s = fold (wake opts) ws s'"
    using t c by (rule resume_eq)
  from continue_shape [of opts t ?k s out] show ?thesis
    unfolding c
  proof cases
    case idle
    then show ?thesis using assms r by simp
  next
    case (next_await k' e)
    then show ?thesis
      using r queue_suspended_update [OF assms t refreshing_not_queue, of s'] by simp
  next
    case (catch err)
    then show ?thesis
      using r by (simp add: catch_block_eq queue_suspended_empty)
  next
    case (success newToken)
    then show ?thesis
      using r t
      by (cases "truthy_value newToken")
         (simp_all add: refreshed_eq refreshed_falsy_eq Let_def queue_suspended_empty)
  next
    case (leave err)
    then show ?thesis
      using r queue_suspended_update [OF assms t refreshing_not_queue, of s']
      by (simp add: finally_return_def)
  qed
qed

lemma queue_suspended_step: "queue_suspended s \<Longrightarrow> queue_suspended (step opts s ev)"
  by (cases ev) (simp_all add: queue_suspended_on_rejected queue_suspended_resume)

lemma queue_suspended_run: "queue_suspended s \<Longrightarrow> queue_suspended (run opts s evs)"
  by (induction evs arbitrary: s) (simp_all add: queue_suspended_step)

lemma queue_suspended_init: "queue_suspended init"
  by (simp add: queue_suspended_def init_def)

subsection \<open>The retry marker\<close>

lemma list_all_update:
  "list_all P xs \<Longrightarrow> P y \<Longrightarrow> list_all P (xs[i := y])"
  using set_update_subset_insert [of xs i y] by (auto simp: list_all_iff)

lemma list_all_nth: "list_all P xs \<Longrightarrow> i < length xs \<Longrightarrow> P (xs ! i)"
  by (simp add: list_all_iff)

lemma not_rejected_refreshing: "refreshing k \<Longrightarrow> \<not> rejected k"
  by (cases k) auto

lemma retry_marked_on_rejected:
  "retry_marked s \<Longrightarrow> retry_marked (on_rejected error config s)"
  by (auto simp: retry_marked_def on_rejected_def Let_def)

lemma retry_marked_wake:
  assumes "retry_marked s"
  shows "retry_marked (wake opts w s)"
proof (cases w)
  case (Pair q v)
  show ?thesis
  proof (cases "q < length (tasks s) \<and> pc (tasks s ! q) = Await_queue")
    case True
    then have "retry (originalRequest (tasks s ! q))"
      using assms list_all_nth [of _ "tasks s" q] by (fastforce simp: retry_marked_def)
    then show ?thesis
      using assms True
      by (auto simp: Pair wake_eq retry_marked_def continue_queued_def Let_def
          intro!: list_all_update split: sum.splits option.splits)
  next
    case False
    then show ?thesis using assms by (auto simp: Pair wake_def)
  qed
qed

lemma retry_marked_fold_wake:
  "retry_marked s \<Longrightarrow> retry_marked (fold (wake opts) ws s)"
  by (induction ws arbitrary: s) (simp_all add: retry_marked_wake)

lemma retry_marked_update:
  assumes "retry_marked s" and "tasks s' = (tasks s)[t := x]"
    and "rejected (pc x) \<or> retry (originalRequest x)"
    and "effects s' = effects s @ es" and "list_all marked es"
  shows "retry_marked s'"
  using assms by (simp add: retry_marked_def list_all_update)

lemma retry_marked_resume:
  assumes "retry_marked s"
  shows "retry_marked (resume opts t out s)"
proof (cases "t < length (tasks s)")
  case False
  then show ?thesis using assms by (simp add: resume_def)
next
  case t: True
  let ?k = "pc (tasks s ! t)"
  obtain s' ws where c: "continue opts t ?k out s = (s', ws)"
    by (cases "continue opts t ?k out s")
  have r: "resume opts t out s = fold (wake opts) ws s'"
    using t c by (rule resume_eq)
  have m: "refreshing ?k \<Longrightarrow> retry (originalRequest (tasks s ! t))"
    using assms t list_all_nth [of _ "tasks s" t] not_rejected_refreshing [of ?k]
    by (fastforce simp: retry_marked_def)
  have "retry_marked s'"
    using continue_shape [of opts t ?k s out] unfolding c
  proof cases
    case idle
    then show ?thesis using assms by simp
  next
    case (next_await k' e)
    then have "marked e" by (cases e) auto
    then show ?thesis
      using next_await m
      by (intro retry_marked_update [OF assms, of s' t "(tasks s ! t)\<lparr>pc := k'\<rparr>" "[e]"]) simp_all
  next
    case (catch err)
    then show ?thesis
      using m
      by (intro retry_marked_update [OF assms, of s' t
            "(tasks s ! t)\<lparr>pc := Await_removeTokenFn err\<rparr>"
            "map (\<lambda>q. Queue_reject q err) (if truthy_error err then failedQueue s else [])
               @ [Call_removeTokenFn]"])
         (simp_all add: catch_block_eq list_all_iff)
  next
    case (success newToken)
    then have k: "refreshing ?k" by simp
    let ?c = "originalRequest (tasks s' ! t)"
    have eq: "refreshed opts t newToken s = (s', ws)"
      using success c by simp
    have "retry ?c \<and> tasks s' = (tasks s)[t := (tasks s ! t)\<lparr>originalRequest := ?c, pc := Returned Retried\<rparr>]
        \<and> (\<exists>es. effects s' = effects s @ es @ [Call_axios ?c] \<and> list_all marked es)"
      using m [OF k] t eq
      by (cases "truthy_value newToken")
         (auto simp: refreshed_eq refreshed_falsy_eq Let_def list_all_iff split: option.splits)
    then obtain es where A: "retry ?c"
      and B: "tasks s' = (tasks s)[t := (tasks s ! t)\<lparr>originalRequest := ?c, pc := Returned Retried\<rparr>]"
      and C: "effects s' = effects s @ (es @ [Call_axios ?c])"
      and D: "list_all marked es"
      by auto
    show ?thesis
      by (rule retry_marked_update [OF assms B _ C]) (simp_all add: A D)
  next
    case (leave err)
    then show ?thesis
      by (intro retry_marked_update [OF assms, of s' t
            "(tasks s ! t)\<lparr>pc := Returned (Rejected err)\<rparr>" "[]"])
         (simp_all add: finally_return_def)
  qed
  then show ?thesis by (simp add: r retry_marked_fold_wake)
qed

lemma retry_marked_step: "retry_marked s \<Longrightarrow> retry_marked (step opts s ev)"
  by (cases ev) (simp_all add: retry_marked_on_rejected retry_marked_resume)

lemma retry_marked_run: "retry_marked s \<Longrightarrow> retry_marked (run opts s evs)"
  by (induction evs arbitrary: s) (simp_all add: retry_marked_step)

lemma retry_marked_init: "retry_marked init"
  by (simp add: retry_marked_def init_def)

subsection \<open>One reissue for each invocation\<close>

lemma retried_update:
  "t < length (tasks s) \<Longrightarrow> pc (tasks s ! t) \<noteq> Returned Retried \<Longrightarrow>
   tasks s' = (tasks s)[t := x] \<Longrightarrow>
   retried_invocations s' = retried_invocations s + (if pc x = Returned Retried then 1 else 0)"
  using filter_update_count [of t "tasks s" "\<lambda>task. pc task = Returned Retried" x]
  by (simp add: retried_invocations_def)

lemma refreshing_not_retried: "refreshing k \<Longrightarrow> k \<noteq> Returned Retried"
  by auto

lemma reissues_on_rejected:
  "reissues (on_rejected error config s) = reissues s"
  "retried_invocations (on_rejected error config s) = retried_invocations s"
  by (auto simp: reissues_def retried_invocations_def on_rejected_def Let_def)

lemma reissues_wake:
  "reissues (wake opts w s) + retried_invocations s =
   reissues s + retried_invocations (wake opts w s)"
proof (cases w)
  case (Pair q v)
  show ?thesis
  proof (cases "q < length (tasks s) \<and> pc (tasks s ! q) = Await_queue")
    case True
    then have "retried_invocations (wake opts w s) = retried_invocations s +
        (if pc (fst (continue_queued opts v (tasks s ! q))) = Returned Retried then 1 else 0)"
      by (intro retried_update [of q]) (simp_all add: Pair wake_eq)
    moreover have "reissues (wake opts w s) = reissues s +
        (if pc (fst (continue_queued opts v (tasks s ! q))) = Returned Retried then 1 else 0)"
      using True
      by (auto simp: Pair wake_eq reissues_def continue_queued_def Let_def
          split: sum.splits option.splits)
    ultimately show ?thesis by simp
  next
    case False
    then show ?thesis by (auto simp: Pair wake_def)
  qed
qed

lemma reissues_fold_wake:
  "reissues (fold (wake opts) ws s) + retried_invocations s =
   reissues s + retried_invocations (fold (wake opts) ws s)"
proof (induction ws arbitrary: s)
  case Nil
  then show ?case by simp
next
  case (Cons w ws)
  show ?case
    using Cons.IH [of "wake opts w s"] reissues_wake [of opts w s] by simp
qed

lemma reissues_resume:
  assumes "reissues s = retried_invocations s"
  shows "reissues (resume opts t out s) = retried_invocations (resume opts t out s)"
proof (cases "t < length (tasks s)")
  case False
  then show ?thesis using assms by (simp add: resume_def)
next
  case t: True
  let ?k = "pc (tasks s ! t)"
  obtain s' ws where c: "continue opts t ?k out s = (s', ws)"
    by (cases "continue opts t ?k out s")
  have r: "resume opts t out s = fold (wake opts) ws s'"
    using t c by (rule resume_eq)
  have "reissues s' = retried_invocations s'"
    using continue_shape [of opts t ?k s out] unfolding c
  proof cases
    case idle
    then show ?thesis using assms by simp
  next
    case (next_await k' e)
    then have "\<not> reissue e" by (cases e) auto
    then show ?thesis
      using next_await assms
        retried_update [OF t refreshing_not_retried, of s' "(tasks s ! t)\<lparr>pc := k'\<rparr>"]
      by (auto simp: reissues_def)
  next
    case (catch err)
    have "filter reissue (map (\<lambda>q. Queue_reject q err) qs) = []" for qs :: "tid list"
      by (induction qs) simp_all
    then show ?thesis
      using catch assms
        retried_update [OF t refreshing_not_retried, of s'
          "(tasks s ! t)\<lparr>pc := Await_removeTokenFn err\<rparr>"]
      by (simp add: catch_block_eq reissues_def)
  next
    case (success newToken)
    then have k: "refreshing ?k" by simp
    let ?c = "originalRequest (tasks s' ! t)"
    have eq: "refreshed opts t newToken s = (s', ws)"
      using success c by simp
    have "filter reissue (map (\<lambda>q. Queue_resolve q v) qs) = []" for qs :: "tid list" and v
      by (induction qs) simp_all
    then have "tasks s' = (tasks s)[t := (tasks s ! t)\<lparr>originalRequest := ?c, pc := Returned Retried\<rparr>]
        \<and> reissues s' = reissues s + 1"
      using t eq
      by (cases "truthy_value newToken")
         (auto simp: refreshed_eq refreshed_falsy_eq Let_def reissues_def split: option.splits)
    then show ?thesis
      using assms retried_update [OF t refreshing_not_retried [OF k], of s'
          "(tasks s ! t)\<lparr>originalRequest := ?c, pc := Returned Retried\<rparr>"]
      by simp
  next
    case (leave err)
    then show ?thesis
      using assms
        retried_update [OF t refreshing_not_retried, of s'
          "(tasks s ! t)\<lparr>pc := Returned (Rejected err)\<rparr>"]
      by (simp add: finally_return_def reissues_def)
  qed
  then show ?thesis
    using reissues_fold_wake [of opts ws s'] by (simp add: r)
qed

lemma reissues_step:
  "reissues s = retried_invocations s \<Longrightarrow>
   reissues (step opts s ev) = retried_invocations (step opts s ev)"
  by (cases ev) (simp_all add: reissues_on_rejected reissues_resume)

lemma reissues_run:
  "reissues s = retried_invocations s \<Longrightarrow>
   reissues (run opts s evs) = retried_invocations (run opts s evs)"
  by (induction evs arbitrary: s) (simp_all add: reissues_step)

lemma reissues_init: "reissues init = retried_invocations init"
  by (simp add: reissues_def retried_invocations_def init_def)

subsection \<open>The catch block\<close>

lemma refresh_fails_refreshing: "refresh_fails opts k out err \<Longrightarrow> refreshing k"
  by (induction rule: refresh_fails.induct) simp_all

lemma refresh_fails_continue:
  "refresh_fails opts k out err \<Longrightarrow> continue opts t k out s = catch_block t err s"
  by (induction rule: refresh_fails.induct) simp_all

lemma continue_queued_reject:
  "continue_queued opts (Inl err) task = (task\<lparr>pc := Returned (Rejected err)\<rparr>, [])"
  by (simp add: continue_queued_def)

lemma queue_suspended_distinct: "queue_suspended s \<Longrightarrow> distinct (failedQueue s)"
  by (simp add: queue_suspended_def strict_sorted_iff)

lemma queue_suspendedD:
  "queue_suspended s \<Longrightarrow> q \<in> set (failedQueue s) \<Longrightarrow>
   q < length (tasks s) \<and> pc (tasks s ! q) = Await_queue"
  by (simp add: queue_suspended_def list_all_iff)

lemma catch_step:
  assumes qs: "queue_suspended s" and t: "t < length (tasks s)"
    and f: "refresh_fails opts (pc (tasks s ! t)) out err" and e: "truthy_error err"
  shows "effects (step opts s (Settle t out)) =
           effects s @ map (\<lambda>q. Queue_reject q err) (failedQueue s) @ [Call_removeTokenFn]"
    and "failedQueue (step opts s (Settle t out)) = []"
    and "isRefreshing (step opts s (Settle t out)) = isRefreshing s"
    and "defaults_Authorization (step opts s (Settle t out)) = defaults_Authorization s"
    and "length (tasks (step opts s (Settle t out))) = length (tasks s)"
    and "i < length (tasks s) \<Longrightarrow> tasks (step opts s (Settle t out)) ! i =
           (if i \<in> set (failedQueue s) then (tasks s ! i)\<lparr>pc := Returned (Rejected err)\<rparr>
            else if i = t then (tasks s ! t)\<lparr>pc := Await_removeTokenFn err\<rparr>
            else tasks s ! i)"
proof -
  let ?s0 = "s\<lparr>failedQueue := [],
        tasks := (tasks s)[t := (tasks s ! t)\<lparr>pc := Await_removeTokenFn err\<rparr>],
        effects := effects s @ map (\<lambda>q. Queue_reject q err) (failedQueue s) @ [Call_removeTokenFn]\<rparr>"
  let ?ws = "map (\<lambda>q. (q, Inl err :: error + string)) (failedQueue s)"
  have step: "step opts s (Settle t out) = fold (wake opts) ?ws ?s0"
    using t e refresh_fails_continue [OF f, of t s] by (simp add: resume_def catch_block_eq)
  have nt: "t \<notin> set (failedQueue s)"
    using queue_suspendedD [OF qs, of t] refresh_fails_refreshing [OF f] by auto
  have d: "distinct (failedQueue s)"
    using qs by (rule queue_suspended_distinct)
  have w: "\<forall>q\<in>set (failedQueue s). q < length (tasks ?s0) \<and> pc (tasks ?s0 ! q) = Await_queue"
  proof
    fix q assume q: "q \<in> set (failedQueue s)"
    then have "q \<noteq> t" using nt by auto
    then show "q < length (tasks ?s0) \<and> pc (tasks ?s0 ! q) = Await_queue"
      using queue_suspendedD [OF qs q] by simp
  qed
  show "effects (step opts s (Settle t out)) =
           effects s @ map (\<lambda>q. Queue_reject q err) (failedQueue s) @ [Call_removeTokenFn]"
    unfolding step fold_wake_effects [OF d w] by (simp add: continue_queued_reject)
  show "failedQueue (step opts s (Settle t out)) = []"
    and "isRefreshing (step opts s (Settle t out)) = isRefreshing s"
    and "defaults_Authorization (step opts s (Settle t out)) = defaults_Authorization s"
    and "length (tasks (step opts s (Settle t out))) = length (tasks s)"
    unfolding step by simp_all
  show "tasks (step opts s (Settle t out)) ! i =
           (if i \<in> set (failedQueue s) then (tasks s ! i)\<lparr>pc := Returned (Rejected err)\<rparr>
            else if i = t then (tasks s ! t)\<lparr>pc := Await_removeTokenFn err\<rparr>
            else tasks s ! i)" if "i < length (tasks s)"
  proof -
    have "i < length (tasks ?s0)" using that by simp
    from fold_wake_tasks [OF d w this, of opts "Inl err"] show ?thesis
      unfolding step using nt that by (auto simp: continue_queued_reject nth_list_update)
  qed
qed

subsection \<open>Response errors that arrive during a refresh\<close>

lemma on_rejected_tasks:
  "\<exists>x. tasks (on_rejected error config s) = tasks s @ [x]"
  by (simp add: on_rejected_def Let_def)

lemma on_rejected_refreshing:
  "isRefreshing s \<Longrightarrow> isRefreshing (on_rejected error config s)
     \<and> effects (on_rejected error config s) = effects s"
  by (simp add: on_rejected_def Let_def)

lemma on_rejected_defaults [simp]:
  "defaults_Authorization (on_rejected error config s) = defaults_Authorization s"
  by (simp add: on_rejected_def Let_def)

lemma arrivals_Nil [simp]: "arrivals [] = []"
  by (simp add: arrivals_def)

lemma arrivals_Cons [simp]:
  "arrivals ((error, config) # rs) = Response_error error config # arrivals rs"
  by (simp add: arrivals_def)

lemma arrivals_tasks:
  "length (tasks s) \<le> length (tasks (run opts s (arrivals rs)))
   \<and> (\<forall>i<length (tasks s). tasks (run opts s (arrivals rs)) ! i = tasks s ! i)
   \<and> defaults_Authorization (run opts s (arrivals rs)) = defaults_Authorization s"
proof (induction rs arbitrary: s)
  case Nil
  then show ?case by simp
next
  case (Cons r rs)
  obtain error config where r: "r = (error, config)" by (cases r)
  obtain x where x: "tasks (on_rejected error config s) = tasks s @ [x]"
    using on_rejected_tasks by blast
  show ?case
    using Cons.IH [of "on_rejected error config s"] by (auto simp: r x nth_append)
qed

lemma arrivals_refreshing:
  "isRefreshing s \<Longrightarrow>
   isRefreshing (run opts s (arrivals rs)) \<and> effects (run opts s (arrivals rs)) = effects s"
proof (induction rs arbitrary: s)
  case Nil
  then show ?case by simp
next
  case (Cons r rs)
  obtain error config where r: "r = (error, config)" by (cases r)
  show ?case
    using Cons.IH [of "on_rejected error config s"] on_rejected_refreshing [OF Cons.prems]
    by (simp add: r)
qed

lemma refreshing_isRefreshing:
  "single_flight s \<Longrightarrow> t < length (tasks s) \<Longrightarrow> refreshing (pc (tasks s ! t)) \<Longrightarrow>
   isRefreshing s"
  using in_flight_positive [of t s] by (auto simp: single_flight_def split: if_splits)

text \<open>The steps of the catch block after \<^verbatim>\<open>await removeTokenFn()\<close>.\<close>

lemma removeTokenFn_fulfils:
  "t < length (tasks s) \<Longrightarrow> pc (tasks s ! t) = Await_removeTokenFn err \<Longrightarrow>
   step opts s (Settle t Fulfil_void) =
     (if onRefreshFailure opts
      then suspend t (Await_onRefreshFailure err) (call (Call_onRefreshFailure err) s)
      else finally_return t (Rejected err) s)"
  by (simp add: resume_def)

lemma onRefreshFailure_fulfils:
  "t < length (tasks s) \<Longrightarrow> pc (tasks s ! t) = Await_onRefreshFailure err \<Longrightarrow>
   step opts s (Settle t Fulfil_void) = finally_return t (Rejected err) s"
  by (simp add: resume_def)

lemma finally_return_fields [simp]:
  "isRefreshing (finally_return t res s) = False"
  "failedQueue (finally_return t res s) = failedQueue s"
  "tasks (finally_return t res s) = (tasks s)[t := (tasks s ! t)\<lparr>pc := Returned res\<rparr>]"
  "defaults_Authorization (finally_return t res s) = defaults_Authorization s"
  "effects (finally_return t res s) = effects s"
  by (simp_all add: finally_return_def)

subsection \<open>Evaluation of concrete executions\<close>

lemmas model_defs = run_def init_def on_rejected_def resume_def catch_block_def processQueue_def
  refreshed_def finally_return_def wake_def continue_queued_def call_def suspend_def
  settle_prom_def default_options_def default_authHeaderPrefix_def field_def
  default_refreshTokenPayloadAdapter_def arrivals_def Let_def

subsection \<open>The success path\<close>

lemma continue_queued_resolve:
  "headers (originalRequest task) \<noteq> None \<Longrightarrow>
   continue_queued opts (Inr token) task =
     (\<lparr>originalRequest = authorized opts token (originalRequest task), pc = Returned Retried\<rparr>,
      [Call_axios (authorized opts token (originalRequest task))])"
  by (auto simp: continue_queued_def authorized_def Let_def)

lemma refreshed_step:
  assumes qs: "queue_suspended s" and t: "t < length (tasks s)"
    and k: "pc (tasks s ! t) = Await_setRefreshTokenFn (Str tok)" and tok: "tok \<noteq> []"
    and h: "list_all (\<lambda>q. headers (originalRequest (tasks s ! q)) \<noteq> None) (failedQueue s)"
  shows "effects (step opts s (Settle t Fulfil_void)) =
           effects s @ map (\<lambda>q. Queue_resolve q tok) (failedQueue s)
             @ [Call_axios (authorized opts tok (originalRequest (tasks s ! t)))]
             @ map (\<lambda>q. Call_axios (authorized opts tok (originalRequest (tasks s ! q))))
                 (failedQueue s)"
    and "failedQueue (step opts s (Settle t Fulfil_void)) = []"
    and "isRefreshing (step opts s (Settle t Fulfil_void)) = False"
    and "defaults_Authorization (step opts s (Settle t Fulfil_void)) =
           Some (authHeaderPrefix opts @ tok)"
    and "length (tasks (step opts s (Settle t Fulfil_void))) = length (tasks s)"
    and "i < length (tasks s) \<Longrightarrow> tasks (step opts s (Settle t Fulfil_void)) ! i =
           (if i \<in> set (failedQueue s) \<or> i = t
            then \<lparr>originalRequest = authorized opts tok (originalRequest (tasks s ! i)),
                  pc = Returned Retried\<rparr>
            else tasks s ! i)"
proof -
  let ?c = "authorized opts tok (originalRequest (tasks s ! t))"
  let ?s0 = "s\<lparr>isRefreshing := False, failedQueue := [],
        tasks := (tasks s)[t := (tasks s ! t)\<lparr>originalRequest := ?c, pc := Returned Retried\<rparr>],
        defaults_Authorization := Some (authHeaderPrefix opts @ tok),
        effects := effects s @ map (\<lambda>q. Queue_resolve q tok) (failedQueue s) @ [Call_axios ?c]\<rparr>"
  let ?ws = "map (\<lambda>q. (q, Inr tok :: error + string)) (failedQueue s)"
  have r: "refreshed opts t (Str tok) s = (?s0, ?ws)"
    using refreshed_eq [of "Str tok" t s opts] t tok
    by (simp add: Let_def authorized_def cong: option.case_cong)
  have step: "step opts s (Settle t Fulfil_void) = fold (wake opts) ?ws ?s0"
    using t k r by (simp add: resume_def)
  have nt: "t \<notin> set (failedQueue s)"
    using queue_suspendedD [OF qs, of t] k by auto
  have d: "distinct (failedQueue s)"
    using qs by (rule queue_suspended_distinct)
  have same: "tasks ?s0 ! q = tasks s ! q" if "q \<in> set (failedQueue s)" for q
  proof -
    have "q \<noteq> t" using that nt by auto
    then show ?thesis by simp
  qed
  have w: "\<forall>q\<in>set (failedQueue s). q < length (tasks ?s0) \<and> pc (tasks ?s0 ! q) = Await_queue"
    using queue_suspendedD [OF qs] same by simp
  have hq: "headers (originalRequest (tasks s ! q)) \<noteq> None" if "q \<in> set (failedQueue s)" for q
    using h that by (simp add: list_all_iff)
  have es: "map (\<lambda>q. snd (continue_queued opts (Inr tok) (tasks ?s0 ! q))) (failedQueue s) =
            map (\<lambda>q. [Call_axios (authorized opts tok (originalRequest (tasks s ! q)))])
              (failedQueue s)"
    using same hq by (simp add: continue_queued_resolve)
  have cc: "concat (map (\<lambda>q. [f q]) xs) = map f xs" for f :: "tid \<Rightarrow> 'b effect" and xs
    by (induction xs) simp_all
  show "effects (step opts s (Settle t Fulfil_void)) =
           effects s @ map (\<lambda>q. Queue_resolve q tok) (failedQueue s)
             @ [Call_axios (authorized opts tok (originalRequest (tasks s ! t)))]
             @ map (\<lambda>q. Call_axios (authorized opts tok (originalRequest (tasks s ! q))))
                 (failedQueue s)"
    unfolding step fold_wake_effects [OF d w] es cc by simp
  show "failedQueue (step opts s (Settle t Fulfil_void)) = []"
    and "isRefreshing (step opts s (Settle t Fulfil_void)) = False"
    and "defaults_Authorization (step opts s (Settle t Fulfil_void)) =
           Some (authHeaderPrefix opts @ tok)"
    and "length (tasks (step opts s (Settle t Fulfil_void))) = length (tasks s)"
    unfolding step by simp_all
  show "tasks (step opts s (Settle t Fulfil_void)) ! i =
           (if i \<in> set (failedQueue s) \<or> i = t
            then \<lparr>originalRequest = authorized opts tok (originalRequest (tasks s ! i)),
                  pc = Returned Retried\<rparr>
            else tasks s ! i)" if "i < length (tasks s)"
  proof -
    have i: "i < length (tasks ?s0)" using that by simp
    show ?thesis
    proof (cases "i \<in> set (failedQueue s)")
      case True
      then show ?thesis
        unfolding step fold_wake_tasks [OF d w i]
        using same [OF True] hq [OF True] by (simp add: continue_queued_resolve)
    next
      case False
      then show ?thesis
        unfolding step fold_wake_tasks [OF d w i]
        using that by (cases "tasks s ! t") (auto simp: nth_list_update)
    qed
  qed
qed

lemma arrivals_at:
  assumes "isRefreshing s" "t < length (tasks s)"
  shows "isRefreshing (run opts s (arrivals rs))"
    and "effects (run opts s (arrivals rs)) = effects s"
    and "t < length (tasks (run opts s (arrivals rs)))"
    and "tasks (run opts s (arrivals rs)) ! t = tasks s ! t"
    and "defaults_Authorization (run opts s (arrivals rs)) = defaults_Authorization s"
  using arrivals_refreshing [OF assms(1), of opts rs] arrivals_tasks [of s opts rs] assms(2)
  by auto

subsection \<open>A refresh cycle with its waiters\<close>

lemma in_cycle_state:
  assumes c: "in_cycle opts (length (tasks s0)) c0 evs k ws n es"
    and idle: "\<not> isRefreshing s0" "failedQueue s0 = []"
  shows "isRefreshing (run opts s0 evs)
    \<and> failedQueue (run opts s0 evs) = map fst ws
    \<and> length (tasks (run opts s0 evs)) = n
    \<and> length (tasks s0) < n
    \<and> effects (run opts s0 evs) = effects s0 @ es
    \<and> defaults_Authorization (run opts s0 evs) = defaults_Authorization s0
    \<and> tasks (run opts s0 evs) ! length (tasks s0) = \<lparr>originalRequest = c0\<lparr>retry := True\<rparr>, pc = k\<rparr>
    \<and> list_all (\<lambda>(t, c). length (tasks s0) < t \<and> t < n \<and>
          tasks (run opts s0 evs) ! t = \<lparr>originalRequest = c\<lparr>retry := True\<rparr>, pc = Await_queue\<rparr>) ws
    \<and> length (filter refresh_call es) = (if k = Await_getRefreshTokenFn then 0 else 1)"
  using c
proof (induction rule: in_cycle.induct)
  case (start error)
  then show ?case
    using idle by (simp add: on_rejected_def Let_def)
next
  case (arrive evs k ws n es error c)
  then show ?case
    by (auto simp: run_snoc on_rejected_def Let_def nth_append list_all_iff)
next
  case (other evs k ws n es error c)
  then show ?case
    by (auto simp: run_snoc on_rejected_def Let_def nth_append list_all_iff)
next
  case (refresh_token_read evs ws n es refreshToken payload)
  then show ?case
    by (auto simp: run_snoc resume_def list_all_iff)
next
  case (refresh_call_answered evs ws n es data newToken newRefreshToken)
  then show ?case
    by (auto simp: run_snoc resume_def list_all_iff)
next
  case (token_stored newToken newRefreshToken evs ws n es)
  then show ?case
    by (auto simp: run_snoc resume_def list_all_iff)
qed

lemma after_catch:
  fixes opts :: "('r, 'p) options" and rs rs' :: "(error \<times> request_config) list"
  assumes busy: "isRefreshing s1" and t: "t < length (tasks s1)"
    and k: "pc (tasks s1 ! t) = Await_removeTokenFn err"
  defines "s2 \<equiv> step opts (run opts s1 (arrivals rs)) (Settle t Fulfil_void)"
  defines "s3 \<equiv> step opts (run opts s2 (arrivals rs')) (Settle t Fulfil_void)"
  defines "sF \<equiv> if onRefreshFailure opts then s3 else s2"
  shows "effects s2 = effects s1 @ (if onRefreshFailure opts then [Call_onRefreshFailure err] else [])"
    and "pc (tasks s2 ! t) =
           (if onRefreshFailure opts then Await_onRefreshFailure err else Returned (Rejected err))"
    and "isRefreshing s2 = onRefreshFailure opts"
    and "onRefreshFailure opts \<Longrightarrow> effects s3 = effects s2"
    and "onRefreshFailure opts \<Longrightarrow> pc (tasks s3 ! t) = Returned (Rejected err)"
    and "onRefreshFailure opts \<Longrightarrow> \<not> isRefreshing s3"
    and "i < length (tasks s1) \<Longrightarrow> tasks sF ! i =
           (if i = t then (tasks s1 ! t)\<lparr>pc := Returned (Rejected err)\<rparr> else tasks s1 ! i)"
proof -
  let ?a1 = "run opts s1 (arrivals rs)"
  let ?a2 = "run opts s2 (arrivals rs')"
  note a1 = arrivals_at [OF busy t, of opts rs]
  have ta: "t < length (tasks ?a1)" "pc (tasks ?a1 ! t) = Await_removeTokenFn err"
    using a1 k by simp_all
  note r2 = removeTokenFn_fulfils [OF ta, of opts]
  have len1: "length (tasks s1) \<le> length (tasks ?a1)"
    and same1: "j < length (tasks s1) \<Longrightarrow> tasks ?a1 ! j = tasks s1 ! j" for j
    using arrivals_tasks [of s1 opts rs] by simp_all
  show e2: "effects s2 = effects s1 @ (if onRefreshFailure opts then [Call_onRefreshFailure err] else [])"
    unfolding s2_def r2 using a1(2) by simp
  show k2: "pc (tasks s2 ! t) =
           (if onRefreshFailure opts then Await_onRefreshFailure err else Returned (Rejected err))"
    unfolding s2_def r2 using ta(1) by simp
  show b2: "isRefreshing s2 = onRefreshFailure opts"
    unfolding s2_def r2 using a1(1) by simp
  have len2: "length (tasks s2) = length (tasks ?a1)"
    unfolding s2_def r2 by simp
  have t2: "j < length (tasks s1) \<Longrightarrow> tasks s2 ! j =
      (if j = t
       then (tasks s1 ! t)\<lparr>pc := (if onRefreshFailure opts then Await_onRefreshFailure err
                                   else Returned (Rejected err))\<rparr>
       else tasks s1 ! j)" for j
    unfolding s2_def r2 using ta(1) len1 same1 [of j] same1 [of t] t
    by (simp add: nth_list_update)
  {
    assume cb: "onRefreshFailure opts"
    then have busy2: "isRefreshing s2" using b2 by simp
    have tt: "t < length (tasks s2)" using ta(1) len2 by simp
    note a2 = arrivals_at [OF busy2 tt, of opts rs']
    have tb: "t < length (tasks ?a2)" "pc (tasks ?a2 ! t) = Await_onRefreshFailure err"
      using a2 k2 cb by simp_all
    note r3 = onRefreshFailure_fulfils [OF tb, of opts]
    show "effects s3 = effects s2"
      unfolding s3_def r3 using a2(2) by simp
    show "pc (tasks s3 ! t) = Returned (Rejected err)"
      unfolding s3_def r3 using tb(1) by simp
    show "\<not> isRefreshing s3"
      unfolding s3_def r3 by simp
  }
  show "tasks sF ! i =
           (if i = t then (tasks s1 ! t)\<lparr>pc := Returned (Rejected err)\<rparr> else tasks s1 ! i)"
    if i: "i < length (tasks s1)"
  proof (cases "onRefreshFailure opts")
    case False
    then show ?thesis
      using t2 [OF i] by (simp add: sF_def)
  next
    case cb: True
    then have busy2: "isRefreshing s2" using b2 by simp
    have tt: "t < length (tasks s2)" using ta(1) len2 by simp
    note a2 = arrivals_at [OF busy2 tt, of opts rs']
    have tb: "t < length (tasks ?a2)" "pc (tasks ?a2 ! t) = Await_onRefreshFailure err"
      using a2 k2 cb by simp_all
    note r3 = onRefreshFailure_fulfils [OF tb, of opts]
    have i2: "i < length (tasks s2)" using i len1 len2 by simp
    have same2: "tasks ?a2 ! i = tasks s2 ! i"
      using arrivals_tasks [of s2 opts rs'] i2 by simp
    have "tasks s3 ! i = (if i = t then (tasks ?a2 ! t)\<lparr>pc := Returned (Rejected err)\<rparr> else tasks s2 ! i)"
      unfolding s3_def r3 using tb(1) same2 by (simp add: nth_list_update)
    then show ?thesis
      using t2 [OF i] t2 [OF t] a2(4) cb by (simp add: sF_def)
  qed
qed

lemma catch_path:
  assumes qs: "queue_suspended s" and sf: "single_flight s" and t: "t < length (tasks s)"
    and f: "refresh_fails opts (pc (tasks s ! t)) out err" and e: "truthy_error err"
  shows "isRefreshing (step opts s (Settle t out))"
    and "t < length (tasks (step opts s (Settle t out)))"
    and "pc (tasks (step opts s (Settle t out)) ! t) = Await_removeTokenFn err"
    and "tasks (step opts s (Settle t out)) ! t = (tasks s ! t)\<lparr>pc := Await_removeTokenFn err\<rparr>"
    and "list_all (\<lambda>q. tasks (step opts s (Settle t out)) ! q =
            (tasks s ! q)\<lparr>pc := Returned (Rejected err)\<rparr>) (failedQueue s)"
    and "t \<notin> set (failedQueue s)"
proof -
  note c = catch_step [OF qs t f e]
  show nt: "t \<notin> set (failedQueue s)"
    using queue_suspendedD [OF qs, of t] refresh_fails_refreshing [OF f] by auto
  show "isRefreshing (step opts s (Settle t out))"
    using refreshing_isRefreshing [OF sf t refresh_fails_refreshing [OF f]]
    by (simp del: step.simps add: c(3))
  show "t < length (tasks (step opts s (Settle t out)))"
    using t by (simp del: step.simps add: c(5))
  show "tasks (step opts s (Settle t out)) ! t = (tasks s ! t)\<lparr>pc := Await_removeTokenFn err\<rparr>"
    using nt t by (simp del: step.simps add: c(6))
  then show "pc (tasks (step opts s (Settle t out)) ! t) = Await_removeTokenFn err"
    by (simp del: step.simps)
  show "list_all (\<lambda>q. tasks (step opts s (Settle t out)) ! q =
            (tasks s ! q)\<lparr>pc := Returned (Rejected err)\<rparr>) (failedQueue s)"
    using queue_suspendedD [OF qs] by (simp del: step.simps add: list_all_iff c(6))
qed

lemma no_refresh_call [simp]:
  "filter refresh_call (map (\<lambda>(t, c). Queue_resolve t tok) ws) = []"
  "filter refresh_call (map (\<lambda>(t, c). Queue_reject t err) ws) = []"
  "filter refresh_call (map (\<lambda>(t, c). Call_axios (f c)) ws) = []"
  by (induction ws) (auto simp: filter_empty_conv)

lemma cycle_success:
  assumes c: "in_cycle opts (length (tasks s0)) c0 evs (Await_setRefreshTokenFn (Str tok)) ws n es"
    and idle: "\<not> isRefreshing s0" "failedQueue s0 = []"
    and qs: "queue_suspended (run opts s0 evs)"
    and tok: "tok \<noteq> []" and h: "list_all (\<lambda>(t, c). headers c \<noteq> None) ws"
  defines "sF \<equiv> step opts (run opts s0 evs) (Settle (length (tasks s0)) Fulfil_void)"
  shows "list_all (\<lambda>(t, c). tasks sF ! t =
            \<lparr>originalRequest = authorized opts tok (c\<lparr>retry := True\<rparr>), pc = Returned Retried\<rparr>)
          ((length (tasks s0), c0) # ws)"
    and "effects sF = effects (run opts s0 evs)
           @ map (\<lambda>(t, c). Queue_resolve t tok) ws
           @ map (\<lambda>(t, c). Call_axios (authorized opts tok (c\<lparr>retry := True\<rparr>)))
               ((length (tasks s0), c0) # ws)"
    and "\<not> isRefreshing sF" and "failedQueue sF = []"
    and "defaults_Authorization sF = Some (authHeaderPrefix opts @ tok)"
proof -
  let ?s = "run opts s0 evs"
  let ?d = "length (tasks s0)"
  note i = in_cycle_state [OF c idle]
  have q: "failedQueue ?s = map fst ws" and n: "length (tasks ?s) = n" and d: "?d < n"
    and drv: "tasks ?s ! ?d = \<lparr>originalRequest = c0\<lparr>retry := True\<rparr>, pc = Await_setRefreshTokenFn (Str tok)\<rparr>"
    using i by simp_all
  have w: "t < n \<and> tasks ?s ! t = \<lparr>originalRequest = c\<lparr>retry := True\<rparr>, pc = Await_queue\<rparr>"
    if "(t, c) \<in> set ws" for t c
    using i that by (auto simp: list_all_iff)
  have t: "?d < length (tasks ?s)" using n d by simp
  have k: "pc (tasks ?s ! ?d) = Await_setRefreshTokenFn (Str tok)" using drv by simp
  have hq: "list_all (\<lambda>q. headers (originalRequest (tasks ?s ! q)) \<noteq> None) (failedQueue ?s)"
    using h w by (auto simp: q list_all_iff)
  note r = refreshed_step [OF qs t k tok hq, where opts = opts]
  show "list_all (\<lambda>(t, c). tasks sF ! t =
            \<lparr>originalRequest = authorized opts tok (c\<lparr>retry := True\<rparr>), pc = Returned Retried\<rparr>)
          ((length (tasks s0), c0) # ws)"
    unfolding sF_def list_all_iff
  proof (intro ballI, clarify)
    fix t c assume m: "(t, c) \<in> set ((?d, c0) # ws)"
    show "tasks (step opts ?s (Settle ?d Fulfil_void)) ! t =
            \<lparr>originalRequest = authorized opts tok (c\<lparr>retry := True\<rparr>), pc = Returned Retried\<rparr>"
    proof (cases "(t, c) \<in> set ws")
      case True
      then have "t \<in> set (failedQueue ?s)" by (force simp: q)
      then show ?thesis
        using w [OF True] n by (simp del: step.simps add: r(6))
    next
      case False
      then have "t = ?d" "c = c0" using m by auto
      then show ?thesis
        using t drv by (simp del: step.simps add: r(6))
    qed
  qed
  have m1: "map (\<lambda>q. Queue_resolve q tok) (map fst ws) = map (\<lambda>(t, c). Queue_resolve t tok) ws"
    by (simp add: comp_def case_prod_beta)
  have m2: "map (\<lambda>q. Call_axios (authorized opts tok (originalRequest (tasks ?s ! q)))) (map fst ws)
      = map (\<lambda>(t, c). Call_axios (authorized opts tok (c\<lparr>retry := True\<rparr>))) ws"
    using w by (auto simp: comp_def)
  show "effects sF = effects ?s
           @ map (\<lambda>(t, c). Queue_resolve t tok) ws
           @ map (\<lambda>(t, c). Call_axios (authorized opts tok (c\<lparr>retry := True\<rparr>)))
               ((length (tasks s0), c0) # ws)"
    unfolding sF_def r(1) q m1 m2 using drv by simp
  show "\<not> isRefreshing sF" and "failedQueue sF = []"
    and "defaults_Authorization sF = Some (authHeaderPrefix opts @ tok)"
    unfolding sF_def by (simp_all del: step.simps add: r(2,3,4))
qed

lemma cycle_failure:
  fixes opts :: "('r, 'p) options" and rs rs' :: "(error \<times> request_config) list"
  assumes c: "in_cycle opts (length (tasks s0)) c0 evs k ws n es"
    and idle: "\<not> isRefreshing s0" "failedQueue s0 = []"
    and qs: "queue_suspended (run opts s0 evs)" and sf: "single_flight (run opts s0 evs)"
    and f: "refresh_fails opts k out err" and e: "truthy_error err"
  defines "s1 \<equiv> step opts (run opts s0 evs) (Settle (length (tasks s0)) out)"
  defines "s2 \<equiv> step opts (run opts s1 (arrivals rs)) (Settle (length (tasks s0)) Fulfil_void)"
  defines "s3 \<equiv> step opts (run opts s2 (arrivals rs')) (Settle (length (tasks s0)) Fulfil_void)"
  defines "sF \<equiv> if onRefreshFailure opts then s3 else s2"
  shows "list_all (\<lambda>(t, c). tasks sF ! t =
            \<lparr>originalRequest = c\<lparr>retry := True\<rparr>, pc = Returned (Rejected err)\<rparr>)
          ((length (tasks s0), c0) # ws)"
    and "effects sF = effects (run opts s0 evs)
           @ map (\<lambda>(t, c). Queue_reject t err) ws @ [Call_removeTokenFn]
           @ (if onRefreshFailure opts then [Call_onRefreshFailure err] else [])"
    and "\<not> isRefreshing sF"
proof -
  let ?s = "run opts s0 evs"
  let ?d = "length (tasks s0)"
  note i = in_cycle_state [OF c idle]
  have q: "failedQueue ?s = map fst ws" and n: "length (tasks ?s) = n" and d: "?d < n"
    and drv: "tasks ?s ! ?d = \<lparr>originalRequest = c0\<lparr>retry := True\<rparr>, pc = k\<rparr>"
    using i by simp_all
  have w: "t \<noteq> ?d \<and> t < n \<and> tasks ?s ! t = \<lparr>originalRequest = c\<lparr>retry := True\<rparr>, pc = Await_queue\<rparr>"
    if "(t, c) \<in> set ws" for t c
    using i that by (auto simp: list_all_iff)
  have t: "?d < length (tasks ?s)" using n d by simp
  have f': "refresh_fails opts (pc (tasks ?s ! ?d)) out err" using f drv by simp
  note cs = catch_step [OF qs t f' e]
  note p = catch_path [OF qs sf t f' e]
  note a = after_catch [OF p(1,2,3), where opts = opts]
  have len: "length (tasks s1) = n"
    unfolding s1_def using n by (simp del: step.simps add: cs(5))
  show "list_all (\<lambda>(t, c). tasks sF ! t =
            \<lparr>originalRequest = c\<lparr>retry := True\<rparr>, pc = Returned (Rejected err)\<rparr>)
          ((length (tasks s0), c0) # ws)"
    unfolding list_all_iff
  proof (intro ballI, clarify)
    fix t c assume m: "(t, c) \<in> set ((?d, c0) # ws)"
    show "tasks sF ! t = \<lparr>originalRequest = c\<lparr>retry := True\<rparr>, pc = Returned (Rejected err)\<rparr>"
    proof (cases "(t, c) \<in> set ws")
      case True
      then have tq: "t \<in> set (failedQueue ?s)" by (force simp: q)
      have "tasks s1 ! t = (tasks ?s ! t)\<lparr>pc := Returned (Rejected err)\<rparr>"
        using p(5) tq unfolding s1_def list_all_iff by blast
      moreover have "tasks sF ! t = tasks s1 ! t"
        using a(7) [of t rs rs'] w [OF True] len
        unfolding sF_def s3_def s2_def s1_def by (simp del: step.simps)
      ultimately show ?thesis
        using w [OF True] by simp
    next
      case False
      then have "t = ?d" "c = c0" using m by auto
      moreover have "tasks sF ! ?d = (tasks s1 ! ?d)\<lparr>pc := Returned (Rejected err)\<rparr>"
        using a(7) [of ?d rs rs'] d len
        unfolding sF_def s3_def s2_def s1_def by (simp del: step.simps)
      ultimately show ?thesis
        using p(4) drv unfolding s1_def by (simp del: step.simps)
    qed
  qed
  have m1: "map (\<lambda>q. Queue_reject q err) (map fst ws) = map (\<lambda>(t, c). Queue_reject t err) ws"
    by (simp add: comp_def case_prod_beta)
  have e1: "effects s1 = effects ?s @ map (\<lambda>(t, c). Queue_reject t err) ws @ [Call_removeTokenFn]"
    unfolding s1_def cs(1) q m1 ..
  show "effects sF = effects ?s
           @ map (\<lambda>(t, c). Queue_reject t err) ws @ [Call_removeTokenFn]
           @ (if onRefreshFailure opts then [Call_onRefreshFailure err] else [])"
    using a(1) [of rs] a(4) [of rs rs'] e1
    unfolding sF_def s3_def s2_def s1_def by (simp del: step.simps)
  show "\<not> isRefreshing sF"
    using a(3) [of rs] a(6) [of rs rs']
    unfolding sF_def s3_def s2_def s1_def by (simp del: step.simps)
qed

section \<open>The claims\<close>

subsection \<open>The request interceptor\<close>

text \<open>
  C7, as stated, fails at a credential that is the empty string: the store returns a
  credential, and the Authorization header is not set to the prefix followed by it; the
  request descriptor is returned as it was (line 95 tests \<^verbatim>\<open>token && config.headers\<close>, and
  the empty string is falsy).
\<close>

theorem request_interceptor_empty_credential_counterexample:
  "request_interceptor (default_options ''/auth/refresh-token'' True) (Inr (Some ''''))
      \<lparr>url = ''/items'', headers = Some \<lparr>Authorization = None\<rparr>, retry = False\<rparr>
    = Inr \<lparr>url = ''/items'', headers = Some \<lparr>Authorization = None\<rparr>, retry = False\<rparr>
   \<and> request_interceptor (default_options ''/auth/refresh-token'' True) (Inr (Some ''''))
      \<lparr>url = ''/items'', headers = Some \<lparr>Authorization = None\<rparr>, retry = False\<rparr>
    \<noteq> Inr \<lparr>url = ''/items'', headers = Some \<lparr>Authorization = Some (''Bearer '' @ '''')\<rparr>,
            retry = False\<rparr>"
  by (simp add: request_interceptor_def default_options_def)

text \<open>
  C7, amended: when the store returns a non-empty credential, the interceptor sets the
  Authorization header of the request (which has a headers object, as its type requires)
  to the prefix (\<open>''Bearer ''\<close> by default) followed by the credential; when the store
  returns no credential or the empty string, the descriptor is returned unchanged (as is
  one without a headers object); when the store lookup fails, the failure is the result
  and no descriptor is returned. The function has no other effect.
\<close>

theorem request_interceptor_injects:
  "(tok \<noteq> [] \<and> headers config = Some h \<longrightarrow>
      request_interceptor opts (Inr (Some tok)) config =
        Inr (config\<lparr>headers := Some (h\<lparr>Authorization := Some (authHeaderPrefix opts @ tok)\<rparr>)\<rparr>))
   \<and> (\<not> truthy token \<or> headers config = None \<longrightarrow>
        request_interceptor opts (Inr token) config = Inr config)
   \<and> request_interceptor opts (Inl err) config = Inl err
   \<and> authHeaderPrefix (default_options endpoint callback) = ''Bearer ''"
  by (auto simp: request_interceptor_def default_options_def default_authHeaderPrefix_def
           split: option.splits)

theorem request_interceptor_injects_witness:
  "request_interceptor (default_options ''/auth/refresh-token'' True) (Inr (Some ''abc''))
      \<lparr>url = ''/items'', headers = Some \<lparr>Authorization = None\<rparr>, retry = False\<rparr>
    = Inr \<lparr>url = ''/items'', headers = Some \<lparr>Authorization = Some ''Bearer abc''\<rparr>,
            retry = False\<rparr>
   \<and> request_interceptor (default_options ''/auth/refresh-token'' True) (Inr None)
      \<lparr>url = ''/items'', headers = Some \<lparr>Authorization = None\<rparr>, retry = False\<rparr>
    = Inr \<lparr>url = ''/items'', headers = Some \<lparr>Authorization = None\<rparr>, retry = False\<rparr>"
  using request_interceptor_injects [of "''abc''"
      "\<lparr>url = ''/items'', headers = Some \<lparr>Authorization = None\<rparr>, retry = False\<rparr>"
      "\<lparr>Authorization = None\<rparr>" "default_options ''/auth/refresh-token'' True" None
      undefined "''/auth/refresh-token''" True]
  by simp

text \<open>
  C10: a credential that is the empty string is treated as an absent one: the request
  descriptor is returned unchanged, with no Authorization header attached.
\<close>

theorem empty_credential_is_absent:
  "request_interceptor opts (Inr (Some [])) config = Inr config
   \<and> request_interceptor opts (Inr (Some [])) config = request_interceptor opts (Inr None) config"
  by (simp add: request_interceptor_def split: option.splits)

subsection \<open>Errors that are not intercepted\<close>

text \<open>
  C8: a response error whose status is not 401 (also one without a status), and a 401 on a
  request that carries the retry marker, is rejected at once with the same error: the
  invocation returns that rejection, the request descriptor is not changed, no call is
  made, nothing is enqueued, and the flag and the queue are as before.
\<close>

theorem non_auth_failure_propagates:
  "response_status error \<noteq> Some 401 \<or> retry config \<Longrightarrow>
     step opts s (Response_error error config) =
       s\<lparr>tasks := tasks s @ [\<lparr>originalRequest = config, pc = Returned (Rejected error)\<rparr>]\<rparr>
     \<and> isRefreshing (step opts s (Response_error error config)) = isRefreshing s
     \<and> failedQueue (step opts s (Response_error error config)) = failedQueue s
     \<and> effects (step opts s (Response_error error config)) = effects s"
  by (auto simp: on_rejected_def)

theorem non_auth_failure_propagates_witness:
  "step (default_options ''/auth/refresh-token'' True) init
      (Response_error (AxiosError (Some 500))
         \<lparr>url = ''/items'', headers = Some \<lparr>Authorization = Some ''Bearer abc''\<rparr>, retry = False\<rparr>)
    = init\<lparr>tasks := [\<lparr>originalRequest =
         \<lparr>url = ''/items'', headers = Some \<lparr>Authorization = Some ''Bearer abc''\<rparr>, retry = False\<rparr>,
         pc = Returned (Rejected (AxiosError (Some 500)))\<rparr>]\<rparr>
   \<and> response_status (AxiosError (Some 500)) \<noteq> Some 401"
  using non_auth_failure_propagates [of "AxiosError (Some 500)"
      "\<lparr>url = ''/items'', headers = Some \<lparr>Authorization = Some ''Bearer abc''\<rparr>, retry = False\<rparr>"
      "default_options ''/auth/refresh-token'' True" init]
  by (simp add: init_def)

subsection \<open>At most one retry\<close>

text \<open>
  C3: a 401 on a request that carries the retry marker is propagated: the invocation
  returns the rejection and the state is otherwise as before, so there is no new refresh
  attempt and no retry. In every execution each reissued request carries the marker, and
  each invocation of the interceptor reissues its request at most once (the reissued
  requests are as many as the invocations that returned one). A request is therefore
  retried at most once and no retry loop is possible.
\<close>

theorem retried_at_most_once:
  "(retry config \<longrightarrow>
      step opts s (Response_error error config) =
        s\<lparr>tasks := tasks s @ [\<lparr>originalRequest = config, pc = Returned (Rejected error)\<rparr>]\<rparr>)
   \<and> list_all marked (effects (run opts init evs))
   \<and> reissues (run opts init evs) = retried_invocations (run opts init evs)"
  using retry_marked_run [OF retry_marked_init, of opts evs]
    reissues_run [OF reissues_init, of opts evs]
  by (simp add: on_rejected_def retry_marked_def)

theorem retried_at_most_once_witness:
  "step (default_options ''/auth/refresh-token'' True) init
     (Response_error (AxiosError (Some 401))
        \<lparr>url = ''/a'', headers = Some \<lparr>Authorization = Some ''Bearer abc2''\<rparr>, retry = True\<rparr>)
   = init\<lparr>tasks := [\<lparr>originalRequest =
        \<lparr>url = ''/a'', headers = Some \<lparr>Authorization = Some ''Bearer abc2''\<rparr>, retry = True\<rparr>,
        pc = Returned (Rejected (AxiosError (Some 401)))\<rparr>]\<rparr>
   \<and> list_all marked (effects (run (default_options ''/auth/refresh-token'' True) init
        [Response_error (AxiosError (Some 401))
           \<lparr>url = ''/a'', headers = Some \<lparr>Authorization = Some ''Bearer abc''\<rparr>, retry = False\<rparr>,
         Settle 0 (Fulfil_string (Some ''r1'')),
         Settle 0 (Fulfil_response (Object [(''token'', Str ''abc2''), (''refreshToken'', Str ''r2'')])),
         Settle 0 Fulfil_void,
         Settle 0 Fulfil_void]))"
  using retried_at_most_once [of
      "\<lparr>url = ''/a'', headers = Some \<lparr>Authorization = Some ''Bearer abc2''\<rparr>, retry = True\<rparr>"
      "default_options ''/auth/refresh-token'' True" init "AxiosError (Some 401)"
      "[Response_error (AxiosError (Some 401))
           \<lparr>url = ''/a'', headers = Some \<lparr>Authorization = Some ''Bearer abc''\<rparr>, retry = False\<rparr>,
         Settle 0 (Fulfil_string (Some ''r1'')),
         Settle 0 (Fulfil_response (Object [(''token'', Str ''abc2''), (''refreshToken'', Str ''r2'')])),
         Settle 0 Fulfil_void,
         Settle 0 Fulfil_void]"]
  by (simp add: init_def)

subsection \<open>The failure path of a refresh\<close>

text \<open>
  C5, as stated, fails when \<^verbatim>\<open>removeTokenFn\<close> rejects: two requests fail with 401, the store
  has no refresh token, and the removal of the stored credentials rejects. The configured
  callback is never called, and the driving caller receives the removal error, not the
  refresh error.
\<close>

theorem removeTokenFn_rejection_counterexample:
  "run (default_options ''/auth/refresh-token'' True) init
      [Response_error (AxiosError (Some 401))
         \<lparr>url = ''/a'', headers = Some \<lparr>Authorization = Some ''Bearer abc''\<rparr>, retry = False\<rparr>,
       Response_error (AxiosError (Some 401))
         \<lparr>url = ''/b'', headers = Some \<lparr>Authorization = Some ''Bearer abc''\<rparr>, retry = False\<rparr>,
       Settle 0 (Fulfil_string None),
       Settle 0 (Reject (Error ''storage unavailable''))]
   = \<lparr>isRefreshing = False, failedQueue = [],
      tasks =
        [\<lparr>originalRequest =
            \<lparr>url = ''/a'', headers = Some \<lparr>Authorization = Some ''Bearer abc''\<rparr>, retry = True\<rparr>,
          pc = Returned (Rejected (Error ''storage unavailable''))\<rparr>,
         \<lparr>originalRequest =
            \<lparr>url = ''/b'', headers = Some \<lparr>Authorization = Some ''Bearer abc''\<rparr>, retry = True\<rparr>,
          pc = Returned (Rejected (Error ''No refresh token available''))\<rparr>],
      defaults_Authorization = None,
      effects =
        [Call_getRefreshTokenFn, Queue_reject 1 (Error ''No refresh token available''),
         Call_removeTokenFn]\<rparr>"
  by (simp add: model_defs)

text \<open>
  C5, amended: in every execution, when a step of the refresh protocol fails with a truthy
  error (\<^verbatim>\<open>getRefreshTokenFn\<close>, the refresh call, \<^verbatim>\<open>setTokenFn\<close> or \<^verbatim>\<open>setRefreshTokenFn\<close> rejects,
  the store has no refresh credential, or an adapter throws; a 401 answer to the refresh
  call is not among these, because it never rejects the call), the coordinator rejects
  every waiter that is queued at that moment with that error, in the order of the queue,
  which is the order in which the waiters were pushed (the numbers of the invocations in
  the queue increase); it empties the queue and calls \<^verbatim>\<open>removeTokenFn\<close>. When that call
  fulfils, the configured callback is called once with the error and awaited; when the
  callback fulfils (or when none is configured), the driving invocation returns a
  rejection with the refresh error and the flag is reset. Response errors may arrive while
  the driver awaits; they change none of this.
\<close>

theorem refresh_failure_path:
  assumes "t < length (tasks (run opts init evs))"
    and "refresh_fails opts (pc (tasks (run opts init evs) ! t)) out err"
    and "truthy_error err"
  shows
    "(let s = run opts init evs;
          s1 = step opts s (Settle t out);
          s2 = step opts (run opts s1 (arrivals rs)) (Settle t Fulfil_void);
          s3 = step opts (run opts s2 (arrivals rs')) (Settle t Fulfil_void);
          rejections = map (\<lambda>q. Queue_reject q err) (failedQueue s)
      in sorted_wrt (<) (failedQueue s)
         \<and> effects s1 = effects s @ rejections @ [Call_removeTokenFn]
         \<and> failedQueue s1 = []
         \<and> list_all (\<lambda>q. pc (tasks s1 ! q) = Returned (Rejected err)) (failedQueue s)
         \<and> (if onRefreshFailure opts
             then effects s2 =
                    effects s @ rejections @ [Call_removeTokenFn, Call_onRefreshFailure err]
                  \<and> pc (tasks s2 ! t) = Await_onRefreshFailure err
                  \<and> effects s3 = effects s2
                  \<and> pc (tasks s3 ! t) = Returned (Rejected err)
                  \<and> \<not> isRefreshing s3
             else effects s2 = effects s @ rejections @ [Call_removeTokenFn]
                  \<and> pc (tasks s2 ! t) = Returned (Rejected err)
                  \<and> \<not> isRefreshing s2))"
proof -
  let ?s = "run opts init evs"
  let ?s1 = "step opts ?s (Settle t out)"
  have qs: "queue_suspended ?s"
    by (rule queue_suspended_run [OF queue_suspended_init])
  have sf: "single_flight ?s"
    by (rule single_flight_run [OF single_flight_init])
  note c = catch_step [OF qs assms]
  note p = catch_path [OF qs sf assms]
  note a = after_catch [OF p(1,2,3)]
  have waiters: "list_all (\<lambda>q. pc (tasks ?s1 ! q) = Returned (Rejected err)) (failedQueue ?s)"
    using p(5) by (simp del: step.simps add: list_all_iff)
  have fifo: "sorted_wrt (<) (failedQueue ?s)"
    using qs by (simp add: queue_suspended_def)
  show ?thesis
    using waiters fifo
    by (simp del: step.simps add: Let_def c(1,2) a(1,2,3) a(4,5,6))
qed

theorem refresh_failure_path_witness:
  "effects (run (default_options ''/auth/refresh-token'' True) init
      [Response_error (AxiosError (Some 401))
         \<lparr>url = ''/a'', headers = Some \<lparr>Authorization = Some ''Bearer abc''\<rparr>, retry = False\<rparr>,
       Response_error (AxiosError (Some 401))
         \<lparr>url = ''/b'', headers = Some \<lparr>Authorization = Some ''Bearer abc''\<rparr>, retry = False\<rparr>,
       Settle 0 (Fulfil_string (Some ''r1'')),
       Response_error (AxiosError (Some 401))
         \<lparr>url = ''/c'', headers = Some \<lparr>Authorization = Some ''Bearer abc''\<rparr>, retry = False\<rparr>,
       Settle 0 (Reject (AxiosError (Some 400))),
       Settle 0 Fulfil_void,
       Settle 0 Fulfil_void])
   = [Call_getRefreshTokenFn, Call_post ''/auth/refresh-token'' [(''refreshToken'', ''r1'')],
      Queue_reject 1 (AxiosError (Some 400)), Queue_reject 2 (AxiosError (Some 400)),
      Call_removeTokenFn, Call_onRefreshFailure (AxiosError (Some 400))]
   \<and> map pc (tasks (run (default_options ''/auth/refresh-token'' True) init
      [Response_error (AxiosError (Some 401))
         \<lparr>url = ''/a'', headers = Some \<lparr>Authorization = Some ''Bearer abc''\<rparr>, retry = False\<rparr>,
       Response_error (AxiosError (Some 401))
         \<lparr>url = ''/b'', headers = Some \<lparr>Authorization = Some ''Bearer abc''\<rparr>, retry = False\<rparr>,
       Settle 0 (Fulfil_string (Some ''r1'')),
       Response_error (AxiosError (Some 401))
         \<lparr>url = ''/c'', headers = Some \<lparr>Authorization = Some ''Bearer abc''\<rparr>, retry = False\<rparr>,
       Settle 0 (Reject (AxiosError (Some 400))),
       Settle 0 Fulfil_void,
       Settle 0 Fulfil_void]))
   = [Returned (Rejected (AxiosError (Some 400))), Returned (Rejected (AxiosError (Some 400))),
      Returned (Rejected (AxiosError (Some 400)))]"
proof -
  let ?opts = "default_options ''/auth/refresh-token'' True"
  let ?evs = "[Response_error (AxiosError (Some 401))
         \<lparr>url = ''/a'', headers = Some \<lparr>Authorization = Some ''Bearer abc''\<rparr>, retry = False\<rparr>,
       Response_error (AxiosError (Some 401))
         \<lparr>url = ''/b'', headers = Some \<lparr>Authorization = Some ''Bearer abc''\<rparr>, retry = False\<rparr>,
       Settle 0 (Fulfil_string (Some ''r1'')),
       Response_error (AxiosError (Some 401))
         \<lparr>url = ''/c'', headers = Some \<lparr>Authorization = Some ''Bearer abc''\<rparr>, retry = False\<rparr>]"
  have t: "0 < length (tasks (run ?opts init ?evs))"
    by (simp add: model_defs)
  have f: "refresh_fails ?opts (pc (tasks (run ?opts init ?evs) ! 0))
             (Reject (AxiosError (Some 400))) (AxiosError (Some 400))"
    by (simp add: model_defs refresh_fails.intros)
  have e: "truthy_error (AxiosError (Some 400))"
    by simp
  show ?thesis
    using refresh_failure_path [OF t f e, of "[]" "[]"]
    by (simp add: model_defs)
qed

text \<open>
  C9 does not hold of the code. \<^verbatim>\<open>processQueue\<close> rejects a waiter only when the error is
  truthy (line 82, \<^verbatim>\<open>if (error)\<close>), and empties the queue in every case (line 88). Two
  requests fail with 401; \<^verbatim>\<open>getRefreshTokenFn\<close> rejects with a falsy reason (here the empty
  string; a call of \<^verbatim>\<open>reject\<close> without a reason is treated alike), and \<^verbatim>\<open>removeTokenFn\<close> then
  rejects. The callback is not called and the driving caller receives the removal error,
  as C9 says; but the queued waiter has not been rejected with the refresh error: the
  queue is empty and that invocation still awaits its queue item.
\<close>

theorem falsy_refresh_error_rejects_no_waiter:
  "run (default_options ''/auth/refresh-token'' True) init
      [Response_error (AxiosError (Some 401))
         \<lparr>url = ''/a'', headers = Some \<lparr>Authorization = Some ''Bearer abc''\<rparr>, retry = False\<rparr>,
       Response_error (AxiosError (Some 401))
         \<lparr>url = ''/b'', headers = Some \<lparr>Authorization = Some ''Bearer abc''\<rparr>, retry = False\<rparr>,
       Settle 0 (Reject (Thrown '''')),
       Settle 0 (Reject (Error ''storage unavailable''))]
   = \<lparr>isRefreshing = False, failedQueue = [],
      tasks =
        [\<lparr>originalRequest =
            \<lparr>url = ''/a'', headers = Some \<lparr>Authorization = Some ''Bearer abc''\<rparr>, retry = True\<rparr>,
          pc = Returned (Rejected (Error ''storage unavailable''))\<rparr>,
         \<lparr>originalRequest =
            \<lparr>url = ''/b'', headers = Some \<lparr>Authorization = Some ''Bearer abc''\<rparr>, retry = True\<rparr>,
          pc = Await_queue\<rparr>],
      defaults_Authorization = None,
      effects = [Call_getRefreshTokenFn, Call_removeTokenFn]\<rparr>"
  by (simp add: model_defs)

subsection \<open>The success path of a refresh\<close>

text \<open>
  C6 does not hold of the code. \<^verbatim>\<open>processQueue\<close> resolves a waiter only when the token is
  truthy (line 84, \<^verbatim>\<open>else if (token)\<close>), and empties the queue in every case (line 88). Two
  requests fail with 401; the store has the refresh credential and the refresh call is
  answered with a body that has a \<^verbatim>\<open>refreshToken\<close> field and neither a \<^verbatim>\<open>token\<close> nor an
  \<^verbatim>\<open>accessToken\<close> field; both setters fulfil. The code takes its success path: it stores
  the pair, sets the default header and reissues the driving request, with the header
  \<^verbatim>\<open>Bearer undefined\<close>. The queued waiter is neither resolved nor rejected: the queue is
  empty and that invocation still awaits its queue item.
\<close>

theorem waiter_unsettled_on_falsy_credential:
  "run (default_options ''/auth/refresh-token'' True) init
      [Response_error (AxiosError (Some 401))
         \<lparr>url = ''/a'', headers = Some \<lparr>Authorization = Some ''Bearer abc''\<rparr>, retry = False\<rparr>,
       Response_error (AxiosError (Some 401))
         \<lparr>url = ''/b'', headers = Some \<lparr>Authorization = Some ''Bearer abc''\<rparr>, retry = False\<rparr>,
       Settle 0 (Fulfil_string (Some ''r1'')),
       Settle 0 (Fulfil_response (Object [(''refreshToken'', Str ''r2'')])),
       Settle 0 Fulfil_void,
       Settle 0 Fulfil_void]
   = \<lparr>isRefreshing = False, failedQueue = [],
      tasks =
        [\<lparr>originalRequest =
            \<lparr>url = ''/a'', headers = Some \<lparr>Authorization = Some ''Bearer undefined''\<rparr>,
             retry = True\<rparr>,
          pc = Returned Retried\<rparr>,
         \<lparr>originalRequest =
            \<lparr>url = ''/b'', headers = Some \<lparr>Authorization = Some ''Bearer abc''\<rparr>, retry = True\<rparr>,
          pc = Await_queue\<rparr>],
      defaults_Authorization = Some ''Bearer undefined'',
      effects =
        [Call_getRefreshTokenFn,
         Call_post ''/auth/refresh-token'' [(''refreshToken'', ''r1'')],
         Call_setTokenFn Undefined, Call_setRefreshTokenFn (Str ''r2''),
         Call_axios
           \<lparr>url = ''/a'', headers = Some \<lparr>Authorization = Some ''Bearer undefined''\<rparr>,
            retry = True\<rparr>]\<rparr>"
  by (simp add: model_defs)

subsection \<open>Waiters that are never settled\<close>

text \<open>
  C2 does not hold of the code. The catch block drains the queue (line 166) before it
  awaits \<^verbatim>\<open>removeTokenFn\<close> and the callback (lines 169-173), and the flag is reset only in the
  finally block (line 178). A request that fails with 401 during those awaits is enqueued
  (the flag is still set); nothing drains the queue again, so when the cycle completes the
  queue is not empty and that waiter is neither resolved nor rejected.
\<close>

theorem late_waiter_left_in_queue:
  "run (default_options ''/auth/refresh-token'' True) init
     [Response_error (AxiosError (Some 401))
        \<lparr>url = ''/a'', headers = Some \<lparr>Authorization = Some ''Bearer abc''\<rparr>, retry = False\<rparr>,
      Settle 0 (Fulfil_string None),
      Response_error (AxiosError (Some 401))
        \<lparr>url = ''/b'', headers = Some \<lparr>Authorization = Some ''Bearer abc''\<rparr>, retry = False\<rparr>,
      Settle 0 Fulfil_void,
      Settle 0 Fulfil_void]
   = \<lparr>isRefreshing = False, failedQueue = [1],
      tasks =
        [\<lparr>originalRequest =
            \<lparr>url = ''/a'', headers = Some \<lparr>Authorization = Some ''Bearer abc''\<rparr>, retry = True\<rparr>,
          pc = Returned (Rejected (Error ''No refresh token available''))\<rparr>,
         \<lparr>originalRequest =
            \<lparr>url = ''/b'', headers = Some \<lparr>Authorization = Some ''Bearer abc''\<rparr>, retry = True\<rparr>,
          pc = Await_queue\<rparr>],
      defaults_Authorization = None,
      effects =
        [Call_getRefreshTokenFn, Call_removeTokenFn,
         Call_onRefreshFailure (Error ''No refresh token available'')]\<rparr>"
  by (simp add: model_defs)

subsection \<open>A 401 from the refresh endpoint\<close>

text \<open>
  C4 does not hold of the code. The refresh call goes through the same client, so a 401
  on it reaches the response-error interceptor with the descriptor of the refresh call,
  which carries no retry marker. The flag is set (the driver awaits that very call), so
  the interceptor enqueues a waiter for the refresh call itself (lines 116-120). The
  driver's promise can then only settle through the queue, which only the driver drains.
\<close>

theorem refresh_call_401_is_enqueued:
  "run (default_options ''/auth/refresh-token'' True) init
     [Response_error (AxiosError (Some 401))
        \<lparr>url = ''/a'', headers = Some \<lparr>Authorization = Some ''Bearer abc''\<rparr>, retry = False\<rparr>,
      Settle 0 (Fulfil_string (Some ''r1'')),
      Response_error (AxiosError (Some 401))
        \<lparr>url = ''/auth/refresh-token'', headers = Some \<lparr>Authorization = Some ''Bearer abc''\<rparr>,
         retry = False\<rparr>]
   = \<lparr>isRefreshing = True, failedQueue = [1],
      tasks =
        [\<lparr>originalRequest =
            \<lparr>url = ''/a'', headers = Some \<lparr>Authorization = Some ''Bearer abc''\<rparr>, retry = True\<rparr>,
          pc = Await_post\<rparr>,
         \<lparr>originalRequest =
            \<lparr>url = ''/auth/refresh-token'',
             headers = Some \<lparr>Authorization = Some ''Bearer abc''\<rparr>, retry = True\<rparr>,
          pc = Await_queue\<rparr>],
      defaults_Authorization = None,
      effects =
        [Call_getRefreshTokenFn,
         Call_post ''/auth/refresh-token'' [(''refreshToken'', ''r1'')]]\<rparr>"
  by (simp add: model_defs)

subsection \<open>One refresh for all the requests that wait\<close>

text \<open>
  C1, as stated, fails when the store has no refresh credential: two requests fail with
  401 while no refresh is active before them, the cycle runs to its end and both are
  rejected, and no call of the refresh endpoint was made, where the claim says exactly one.
\<close>

theorem missing_refresh_credential_counterexample:
  "filter refresh_call (effects (run (default_options ''/auth/refresh-token'' True) init
      [Response_error (AxiosError (Some 401))
         \<lparr>url = ''/a'', headers = Some \<lparr>Authorization = Some ''Bearer abc''\<rparr>, retry = False\<rparr>,
       Response_error (AxiosError (Some 401))
         \<lparr>url = ''/b'', headers = Some \<lparr>Authorization = Some ''Bearer abc''\<rparr>, retry = False\<rparr>,
       Settle 0 (Fulfil_string None),
       Settle 0 Fulfil_void,
       Settle 0 Fulfil_void])) = []
   \<and> map pc (tasks (run (default_options ''/auth/refresh-token'' True) init
      [Response_error (AxiosError (Some 401))
         \<lparr>url = ''/a'', headers = Some \<lparr>Authorization = Some ''Bearer abc''\<rparr>, retry = False\<rparr>,
       Response_error (AxiosError (Some 401))
         \<lparr>url = ''/b'', headers = Some \<lparr>Authorization = Some ''Bearer abc''\<rparr>, retry = False\<rparr>,
       Settle 0 (Fulfil_string None),
       Settle 0 Fulfil_void,
       Settle 0 Fulfil_void]))
     = [Returned (Rejected (Error ''No refresh token available'')),
        Returned (Rejected (Error ''No refresh token available''))]
   \<and> isRefreshing (run (default_options ''/auth/refresh-token'' True) init
      [Response_error (AxiosError (Some 401))
         \<lparr>url = ''/a'', headers = Some \<lparr>Authorization = Some ''Bearer abc''\<rparr>, retry = False\<rparr>,
       Response_error (AxiosError (Some 401))
         \<lparr>url = ''/b'', headers = Some \<lparr>Authorization = Some ''Bearer abc''\<rparr>, retry = False\<rparr>,
       Settle 0 (Fulfil_string None),
       Settle 0 Fulfil_void,
       Settle 0 Fulfil_void]) = False"
  by (simp add: model_defs)

text \<open>
  C1, amended. In every execution at most one refresh attempt is in flight. Take a state
  of an execution in which no refresh is active and the queue is empty, and a request
  \<open>c0\<close> without the retry marker that fails there with 401: its invocation, number \<open>d\<close>,
  drives a refresh cycle. While the driver goes through the protocol, the requests \<open>ws\<close>
  (without the retry marker, none of them to the refresh endpoint) fail with 401 and
  other response errors are propagated, in any interleaving with the steps of the driver.
  Then exactly one refresh attempt is in flight, the queue holds the invocations of \<open>ws\<close>
  in the order of their failures, and the cycle has made no call of the refresh endpoint
  while the driver awaits \<^verbatim>\<open>getRefreshTokenFn\<close> and exactly one from then on, whatever the
  number of requests. When both setters have fulfilled and the new credential is a
  non-empty string, every one of the requests (each with its headers object) is reissued
  with its Authorization header set to the prefix and that same credential: the waiters
  are resolved in the order of their failures, and the cycle has made one call of the
  refresh endpoint. When a step fails with a truthy error (the failures of C5), every one
  of the queued requests is rejected with that error, in the order of their failures, and
  so is the driver once \<^verbatim>\<open>removeTokenFn\<close> and the callback, if one is configured, have
  fulfilled; the cycle has made no call of the refresh endpoint if it failed at
  \<^verbatim>\<open>getRefreshTokenFn\<close> (a rejection, a missing refresh credential, a payload adapter that
  throws) and one otherwise. Response errors that arrive after the failure are not among
  the requests of the cycle.
\<close>

theorem one_refresh_for_all:
  "refreshes_in_flight (run opts init evs0) \<le> 1
   \<and> (\<not> isRefreshing (run opts init evs0) \<and> failedQueue (run opts init evs0) = []
      \<and> in_cycle opts (length (tasks (run opts init evs0))) c0 evs k ws n es \<longrightarrow>
      (let s0 = run opts init evs0; d = length (tasks s0); s = run opts s0 evs
       in refreshes_in_flight s = 1
          \<and> failedQueue s = map fst ws
          \<and> effects s = effects s0 @ es
          \<and> length (filter refresh_call es) = (if k = Await_getRefreshTokenFn then 0 else 1)
          \<and> (k = Await_setRefreshTokenFn (Str tok) \<and> tok \<noteq> []
               \<and> list_all (\<lambda>(t, c). headers c \<noteq> None) ((d, c0) # ws) \<longrightarrow>
             (let sF = step opts s (Settle d Fulfil_void)
              in list_all (\<lambda>(t, c). tasks sF ! t =
                     \<lparr>originalRequest = authorized opts tok (c\<lparr>retry := True\<rparr>),
                      pc = Returned Retried\<rparr>) ((d, c0) # ws)
                 \<and> effects sF = effects s
                      @ map (\<lambda>(t, c). Queue_resolve t tok) ws
                      @ map (\<lambda>(t, c). Call_axios (authorized opts tok (c\<lparr>retry := True\<rparr>)))
                          ((d, c0) # ws)
                 \<and> length (filter refresh_call (effects sF)) =
                     length (filter refresh_call (effects s0)) + 1
                 \<and> \<not> isRefreshing sF \<and> failedQueue sF = []))
          \<and> (refresh_fails opts k out err \<and> truthy_error err \<longrightarrow>
             (let s1 = step opts s (Settle d out);
                  s2 = step opts (run opts s1 (arrivals rs)) (Settle d Fulfil_void);
                  s3 = step opts (run opts s2 (arrivals rs')) (Settle d Fulfil_void);
                  sF = (if onRefreshFailure opts then s3 else s2)
              in list_all (\<lambda>(t, c). tasks sF ! t =
                     \<lparr>originalRequest = c\<lparr>retry := True\<rparr>, pc = Returned (Rejected err)\<rparr>)
                   ((d, c0) # ws)
                 \<and> effects sF = effects s
                      @ map (\<lambda>(t, c). Queue_reject t err) ws @ [Call_removeTokenFn]
                      @ (if onRefreshFailure opts then [Call_onRefreshFailure err] else [])
                 \<and> length (filter refresh_call (effects sF)) =
                     length (filter refresh_call (effects s0))
                     + (if k = Await_getRefreshTokenFn then 0 else 1)
                 \<and> \<not> isRefreshing sF))))"
proof (intro conjI impI)
  show "refreshes_in_flight (run opts init evs0) \<le> 1"
    using single_flight_run [OF single_flight_init, of opts evs0]
    by (simp add: single_flight_def)
next
  let ?a = "run opts init evs0"
  let ?d = "length (tasks ?a)"
  let ?s = "run opts ?a evs"
  assume "\<not> isRefreshing ?a \<and> failedQueue ?a = [] \<and> in_cycle opts ?d c0 evs k ws n es"
  then have idle: "\<not> isRefreshing ?a" "failedQueue ?a = []"
    and c: "in_cycle opts ?d c0 evs k ws n es"
    by simp_all
  have s: "?s = run opts init (evs0 @ evs)"
    by (simp add: run_append)
  have qs: "queue_suspended ?s"
    unfolding s by (rule queue_suspended_run [OF queue_suspended_init])
  have sf: "single_flight ?s"
    unfolding s by (rule single_flight_run [OF single_flight_init])
  note i = in_cycle_state [OF c idle]
  have one: "refreshes_in_flight ?s = 1"
    using sf i by (simp add: single_flight_def)
  have fq: "failedQueue ?s = map fst ws"
    using i by simp
  have es: "effects ?s = effects ?a @ es"
    and calls: "length (filter refresh_call es) = (if k = Await_getRefreshTokenFn then 0 else 1)"
    using i by simp_all
  have success: "(let sF = step opts ?s (Settle ?d Fulfil_void)
              in list_all (\<lambda>(t, c). tasks sF ! t =
                     \<lparr>originalRequest = authorized opts tok (c\<lparr>retry := True\<rparr>),
                      pc = Returned Retried\<rparr>) ((?d, c0) # ws)
                 \<and> effects sF = effects ?s
                      @ map (\<lambda>(t, c). Queue_resolve t tok) ws
                      @ map (\<lambda>(t, c). Call_axios (authorized opts tok (c\<lparr>retry := True\<rparr>)))
                          ((?d, c0) # ws)
                 \<and> length (filter refresh_call (effects sF)) =
                     length (filter refresh_call (effects ?a)) + 1
                 \<and> \<not> isRefreshing sF \<and> failedQueue sF = [])"
    if "k = Await_setRefreshTokenFn (Str tok) \<and> tok \<noteq> []
          \<and> list_all (\<lambda>(t, c). headers c \<noteq> None) ((?d, c0) # ws)"
  proof -
    from that have k: "k = Await_setRefreshTokenFn (Str tok)" and tok: "tok \<noteq> []"
      and h: "list_all (\<lambda>(t, c). headers c \<noteq> None) ws"
      by simp_all
    note r = cycle_success [OF c [unfolded k] idle qs tok h]
    have "length (filter refresh_call (effects (step opts ?s (Settle ?d Fulfil_void)))) =
            length (filter refresh_call (effects ?a)) + 1"
      unfolding r(2) es using calls k by simp
    then show ?thesis
      using r(1,3,4) unfolding Let_def r(2) by (simp del: step.simps)
  qed
  have failure: "(let s1 = step opts ?s (Settle ?d out);
                  s2 = step opts (run opts s1 (arrivals rs)) (Settle ?d Fulfil_void);
                  s3 = step opts (run opts s2 (arrivals rs')) (Settle ?d Fulfil_void);
                  sF = (if onRefreshFailure opts then s3 else s2)
              in list_all (\<lambda>(t, c). tasks sF ! t =
                     \<lparr>originalRequest = c\<lparr>retry := True\<rparr>, pc = Returned (Rejected err)\<rparr>)
                   ((?d, c0) # ws)
                 \<and> effects sF = effects ?s
                      @ map (\<lambda>(t, c). Queue_reject t err) ws @ [Call_removeTokenFn]
                      @ (if onRefreshFailure opts then [Call_onRefreshFailure err] else [])
                 \<and> length (filter refresh_call (effects sF)) =
                     length (filter refresh_call (effects ?a))
                     + (if k = Await_getRefreshTokenFn then 0 else 1)
                 \<and> \<not> isRefreshing sF)"
    if "refresh_fails opts k out err \<and> truthy_error err"
  proof -
    from that have f: "refresh_fails opts k out err" and e: "truthy_error err"
      by simp_all
    note r = cycle_failure [OF c idle qs sf f e, where rs = rs and rs' = rs']
    have "length (filter refresh_call (effects
            (if onRefreshFailure opts
             then step opts (run opts (step opts (run opts (step opts ?s (Settle ?d out))
                    (arrivals rs)) (Settle ?d Fulfil_void)) (arrivals rs')) (Settle ?d Fulfil_void)
             else step opts (run opts (step opts ?s (Settle ?d out))
                    (arrivals rs)) (Settle ?d Fulfil_void)))) =
          length (filter refresh_call (effects ?a)) + (if k = Await_getRefreshTokenFn then 0 else 1)"
      unfolding r(2) es using calls by simp
    then show ?thesis
      using r(1,3) unfolding Let_def r(2) by (simp del: step.simps)
  qed
  show "(let s0 = run opts init evs0; d = length (tasks s0); s = run opts s0 evs
       in refreshes_in_flight s = 1
          \<and> failedQueue s = map fst ws
          \<and> effects s = effects s0 @ es
          \<and> length (filter refresh_call es) = (if k = Await_getRefreshTokenFn then 0 else 1)
          \<and> (k = Await_setRefreshTokenFn (Str tok) \<and> tok \<noteq> []
               \<and> list_all (\<lambda>(t, c). headers c \<noteq> None) ((d, c0) # ws) \<longrightarrow>
             (let sF = step opts s (Settle d Fulfil_void)
              in list_all (\<lambda>(t, c). tasks sF ! t =
                     \<lparr>originalRequest = authorized opts tok (c\<lparr>retry := True\<rparr>),
                      pc = Returned Retried\<rparr>) ((d, c0) # ws)
                 \<and> effects sF = effects s
                      @ map (\<lambda>(t, c). Queue_resolve t tok) ws
                      @ map (\<lambda>(t, c). Call_axios (authorized opts tok (c\<lparr>retry := True\<rparr>)))
                          ((d, c0) # ws)
                 \<and> length (filter refresh_call (effects sF)) =
                     length (filter refresh_call (effects s0)) + 1
                 \<and> \<not> isRefreshing sF \<and> failedQueue sF = []))
          \<and> (refresh_fails opts k out err \<and> truthy_error err \<longrightarrow>
             (let s1 = step opts s (Settle d out);
                  s2 = step opts (run opts s1 (arrivals rs)) (Settle d Fulfil_void);
                  s3 = step opts (run opts s2 (arrivals rs')) (Settle d Fulfil_void);
                  sF = (if onRefreshFailure opts then s3 else s2)
              in list_all (\<lambda>(t, c). tasks sF ! t =
                     \<lparr>originalRequest = c\<lparr>retry := True\<rparr>, pc = Returned (Rejected err)\<rparr>)
                   ((d, c0) # ws)
                 \<and> effects sF = effects s
                      @ map (\<lambda>(t, c). Queue_reject t err) ws @ [Call_removeTokenFn]
                      @ (if onRefreshFailure opts then [Call_onRefreshFailure err] else [])
                 \<and> length (filter refresh_call (effects sF)) =
                     length (filter refresh_call (effects s0))
                     + (if k = Await_getRefreshTokenFn then 0 else 1)
                 \<and> \<not> isRefreshing sF)))"
    unfolding Let_def
    using one fq es calls success [unfolded Let_def] failure [unfolded Let_def]
    by blast
qed

theorem one_refresh_for_all_witness:
  "refreshes_in_flight (run (default_options ''/auth/refresh-token'' True) init
      [Response_error (AxiosError (Some 401))
         \<lparr>url = ''/a'', headers = Some \<lparr>Authorization = Some ''Bearer abc''\<rparr>, retry = False\<rparr>,
       Response_error (AxiosError (Some 401))
         \<lparr>url = ''/b'', headers = Some \<lparr>Authorization = Some ''Bearer abc''\<rparr>, retry = False\<rparr>,
       Settle 0 (Fulfil_string (Some ''r1'')),
       Response_error (AxiosError (Some 500))
         \<lparr>url = ''/x'', headers = Some \<lparr>Authorization = Some ''Bearer abc''\<rparr>, retry = False\<rparr>,
       Settle 0 (Fulfil_response (Object [(''token'', Str ''abc2''), (''refreshToken'', Str ''r2'')])),
       Response_error (AxiosError (Some 401))
         \<lparr>url = ''/c'', headers = Some \<lparr>Authorization = Some ''Bearer abc''\<rparr>, retry = False\<rparr>,
       Settle 0 Fulfil_void]) = 1
   \<and> effects (step (default_options ''/auth/refresh-token'' True) (run (default_options ''/auth/refresh-token'' True) init
      [Response_error (AxiosError (Some 401))
         \<lparr>url = ''/a'', headers = Some \<lparr>Authorization = Some ''Bearer abc''\<rparr>, retry = False\<rparr>,
       Response_error (AxiosError (Some 401))
         \<lparr>url = ''/b'', headers = Some \<lparr>Authorization = Some ''Bearer abc''\<rparr>, retry = False\<rparr>,
       Settle 0 (Fulfil_string (Some ''r1'')),
       Response_error (AxiosError (Some 500))
         \<lparr>url = ''/x'', headers = Some \<lparr>Authorization = Some ''Bearer abc''\<rparr>, retry = False\<rparr>,
       Settle 0 (Fulfil_response (Object [(''token'', Str ''abc2''), (''refreshToken'', Str ''r2'')])),
       Response_error (AxiosError (Some 401))
         \<lparr>url = ''/c'', headers = Some \<lparr>Authorization = Some ''Bearer abc''\<rparr>, retry = False\<rparr>,
       Settle 0 Fulfil_void])
      (Settle 0 Fulfil_void))
     = [Call_getRefreshTokenFn, Call_post ''/auth/refresh-token'' [(''refreshToken'', ''r1'')],
      Call_setTokenFn (Str ''abc2''), Call_setRefreshTokenFn (Str ''r2''),
      Queue_resolve 1 ''abc2'', Queue_resolve 3 ''abc2'',
      Call_axios \<lparr>url = ''/a'', headers = Some \<lparr>Authorization = Some ''Bearer abc2''\<rparr>, retry = True\<rparr>,
      Call_axios \<lparr>url = ''/b'', headers = Some \<lparr>Authorization = Some ''Bearer abc2''\<rparr>, retry = True\<rparr>,
      Call_axios \<lparr>url = ''/c'', headers = Some \<lparr>Authorization = Some ''Bearer abc2''\<rparr>, retry = True\<rparr>]
   \<and> tasks (step (default_options ''/auth/refresh-token'' True) (run (default_options ''/auth/refresh-token'' True) init
      [Response_error (AxiosError (Some 401))
         \<lparr>url = ''/a'', headers = Some \<lparr>Authorization = Some ''Bearer abc''\<rparr>, retry = False\<rparr>,
       Response_error (AxiosError (Some 401))
         \<lparr>url = ''/b'', headers = Some \<lparr>Authorization = Some ''Bearer abc''\<rparr>, retry = False\<rparr>,
       Settle 0 (Fulfil_string (Some ''r1'')),
       Response_error (AxiosError (Some 500))
         \<lparr>url = ''/x'', headers = Some \<lparr>Authorization = Some ''Bearer abc''\<rparr>, retry = False\<rparr>,
       Settle 0 (Fulfil_response (Object [(''token'', Str ''abc2''), (''refreshToken'', Str ''r2'')])),
       Response_error (AxiosError (Some 401))
         \<lparr>url = ''/c'', headers = Some \<lparr>Authorization = Some ''Bearer abc''\<rparr>, retry = False\<rparr>,
       Settle 0 Fulfil_void])
      (Settle 0 Fulfil_void)) ! 1
     = \<lparr>originalRequest = \<lparr>url = ''/b'', headers = Some \<lparr>Authorization = Some ''Bearer abc2''\<rparr>, retry = True\<rparr>,
        pc = Returned Retried\<rparr>
   \<and> tasks (step (default_options ''/auth/refresh-token'' True) (run (default_options ''/auth/refresh-token'' True) init
      [Response_error (AxiosError (Some 401))
         \<lparr>url = ''/a'', headers = Some \<lparr>Authorization = Some ''Bearer abc''\<rparr>, retry = False\<rparr>,
       Response_error (AxiosError (Some 401))
         \<lparr>url = ''/b'', headers = Some \<lparr>Authorization = Some ''Bearer abc''\<rparr>, retry = False\<rparr>,
       Settle 0 (Fulfil_string (Some ''r1'')),
       Response_error (AxiosError (Some 500))
         \<lparr>url = ''/x'', headers = Some \<lparr>Authorization = Some ''Bearer abc''\<rparr>, retry = False\<rparr>,
       Settle 0 (Fulfil_response (Object [(''token'', Str ''abc2''), (''refreshToken'', Str ''r2'')])),
       Response_error (AxiosError (Some 401))
         \<lparr>url = ''/c'', headers = Some \<lparr>Authorization = Some ''Bearer abc''\<rparr>, retry = False\<rparr>,
       Settle 0 Fulfil_void])
      (Settle 0 Fulfil_void)) ! 3
     = \<lparr>originalRequest = \<lparr>url = ''/c'', headers = Some \<lparr>Authorization = Some ''Bearer abc2''\<rparr>, retry = True\<rparr>,
        pc = Returned Retried\<rparr>
   \<and> effects (step (default_options ''/auth/refresh-token'' True) (step (default_options ''/auth/refresh-token'' True) (step (default_options ''/auth/refresh-token'' True) (run (default_options ''/auth/refresh-token'' True) init
      [Response_error (AxiosError (Some 401))
         \<lparr>url = ''/a'', headers = Some \<lparr>Authorization = Some ''Bearer abc''\<rparr>, retry = False\<rparr>,
       Response_error (AxiosError (Some 401))
         \<lparr>url = ''/b'', headers = Some \<lparr>Authorization = Some ''Bearer abc''\<rparr>, retry = False\<rparr>,
       Settle 0 (Fulfil_string (Some ''r1'')),
       Response_error (AxiosError (Some 500))
         \<lparr>url = ''/x'', headers = Some \<lparr>Authorization = Some ''Bearer abc''\<rparr>, retry = False\<rparr>,
       Settle 0 (Fulfil_response (Object [(''token'', Str ''abc2''), (''refreshToken'', Str ''r2'')])),
       Response_error (AxiosError (Some 401))
         \<lparr>url = ''/c'', headers = Some \<lparr>Authorization = Some ''Bearer abc''\<rparr>, retry = False\<rparr>,
       Settle 0 Fulfil_void])
      (Settle 0 (Reject (Error ''quota exceeded''))))
      (Settle 0 Fulfil_void)) (Settle 0 Fulfil_void))
     = [Call_getRefreshTokenFn, Call_post ''/auth/refresh-token'' [(''refreshToken'', ''r1'')],
      Call_setTokenFn (Str ''abc2''), Call_setRefreshTokenFn (Str ''r2''),
      Queue_reject 1 (Error ''quota exceeded''), Queue_reject 3 (Error ''quota exceeded''),
      Call_removeTokenFn, Call_onRefreshFailure (Error ''quota exceeded'')]
   \<and> tasks (step (default_options ''/auth/refresh-token'' True) (step (default_options ''/auth/refresh-token'' True) (step (default_options ''/auth/refresh-token'' True) (run (default_options ''/auth/refresh-token'' True) init
      [Response_error (AxiosError (Some 401))
         \<lparr>url = ''/a'', headers = Some \<lparr>Authorization = Some ''Bearer abc''\<rparr>, retry = False\<rparr>,
       Response_error (AxiosError (Some 401))
         \<lparr>url = ''/b'', headers = Some \<lparr>Authorization = Some ''Bearer abc''\<rparr>, retry = False\<rparr>,
       Settle 0 (Fulfil_string (Some ''r1'')),
       Response_error (AxiosError (Some 500))
         \<lparr>url = ''/x'', headers = Some \<lparr>Authorization = Some ''Bearer abc''\<rparr>, retry = False\<rparr>,
       Settle 0 (Fulfil_response (Object [(''token'', Str ''abc2''), (''refreshToken'', Str ''r2'')])),
       Response_error (AxiosError (Some 401))
         \<lparr>url = ''/c'', headers = Some \<lparr>Authorization = Some ''Bearer abc''\<rparr>, retry = False\<rparr>,
       Settle 0 Fulfil_void])
      (Settle 0 (Reject (Error ''quota exceeded''))))
      (Settle 0 Fulfil_void)) (Settle 0 Fulfil_void)) ! 0
     = \<lparr>originalRequest = \<lparr>url = ''/a'', headers = Some \<lparr>Authorization = Some ''Bearer abc''\<rparr>, retry = True\<rparr>,
        pc = Returned (Rejected (Error ''quota exceeded''))\<rparr>
   \<and> tasks (step (default_options ''/auth/refresh-token'' True) (step (default_options ''/auth/refresh-token'' True) (step (default_options ''/auth/refresh-token'' True) (run (default_options ''/auth/refresh-token'' True) init
      [Response_error (AxiosError (Some 401))
         \<lparr>url = ''/a'', headers = Some \<lparr>Authorization = Some ''Bearer abc''\<rparr>, retry = False\<rparr>,
       Response_error (AxiosError (Some 401))
         \<lparr>url = ''/b'', headers = Some \<lparr>Authorization = Some ''Bearer abc''\<rparr>, retry = False\<rparr>,
       Settle 0 (Fulfil_string (Some ''r1'')),
       Response_error (AxiosError (Some 500))
         \<lparr>url = ''/x'', headers = Some \<lparr>Authorization = Some ''Bearer abc''\<rparr>, retry = False\<rparr>,
       Settle 0 (Fulfil_response (Object [(''token'', Str ''abc2''), (''refreshToken'', Str ''r2'')])),
       Response_error (AxiosError (Some 401))
         \<lparr>url = ''/c'', headers = Some \<lparr>Authorization = Some ''Bearer abc''\<rparr>, retry = False\<rparr>,
       Settle 0 Fulfil_void])
      (Settle 0 (Reject (Error ''quota exceeded''))))
      (Settle 0 Fulfil_void)) (Settle 0 Fulfil_void)) ! 3
     = \<lparr>originalRequest = \<lparr>url = ''/c'', headers = Some \<lparr>Authorization = Some ''Bearer abc''\<rparr>, retry = True\<rparr>,
        pc = Returned (Rejected (Error ''quota exceeded''))\<rparr>"
proof -
  let ?opts = "default_options ''/auth/refresh-token'' True"
  let ?a = "\<lparr>url = ''/a'', headers = Some \<lparr>Authorization = Some ''Bearer abc''\<rparr>, retry = False\<rparr>"
  let ?b = "\<lparr>url = ''/b'', headers = Some \<lparr>Authorization = Some ''Bearer abc''\<rparr>, retry = False\<rparr>"
  let ?x = "\<lparr>url = ''/x'', headers = Some \<lparr>Authorization = Some ''Bearer abc''\<rparr>, retry = False\<rparr>"
  let ?c = "\<lparr>url = ''/c'', headers = Some \<lparr>Authorization = Some ''Bearer abc''\<rparr>, retry = False\<rparr>"
  let ?body = "Object [(''token'', Str ''abc2''), (''refreshToken'', Str ''r2'')]"
  let ?e1 = "Response_error (AxiosError (Some 401)) ?a :: body event"
  let ?e2 = "Response_error (AxiosError (Some 401)) ?b :: body event"
  let ?e3 = "Settle 0 (Fulfil_string (Some ''r1'')) :: body event"
  let ?e4 = "Response_error (AxiosError (Some 500)) ?x :: body event"
  let ?e5 = "Settle 0 (Fulfil_response ?body)"
  let ?e6 = "Response_error (AxiosError (Some 401)) ?c :: body event"
  let ?e7 = "Settle 0 Fulfil_void :: body event"
  let ?p = "Call_post ''/auth/refresh-token'' [(''refreshToken'', ''r1'')]"
  have 1: "in_cycle ?opts 0 ?a [?e1] Await_getRefreshTokenFn [] (Suc 0) [Call_getRefreshTokenFn]"
    by (rule in_cycle.start) simp_all
  have 2: "in_cycle ?opts 0 ?a ([?e1] @ [?e2]) Await_getRefreshTokenFn ([] @ [(Suc 0, ?b)]) (Suc (Suc 0))
      [Call_getRefreshTokenFn]"
    by (rule in_cycle.arrive [OF 1]) (simp_all add: default_options_def)
  have 3: "in_cycle ?opts 0 ?a (([?e1] @ [?e2]) @ [?e3]) Await_post ([] @ [(Suc 0, ?b)]) (Suc (Suc 0))
      ([Call_getRefreshTokenFn] @ [Call_post (refreshTokenEndpoint ?opts) [(''refreshToken'', ''r1'')]])"
    by (rule in_cycle.refresh_token_read [OF 2])
       (simp_all add: default_options_def default_refreshTokenPayloadAdapter_def)
  have 4: "in_cycle ?opts 0 ?a ((([?e1] @ [?e2]) @ [?e3]) @ [?e4]) Await_post ([] @ [(Suc 0, ?b)])
      (Suc (Suc (Suc 0)))
      ([Call_getRefreshTokenFn] @ [Call_post (refreshTokenEndpoint ?opts) [(''refreshToken'', ''r1'')]])"
    by (rule in_cycle.other [OF 3]) simp
  have 5: "in_cycle ?opts 0 ?a (((([?e1] @ [?e2]) @ [?e3]) @ [?e4]) @ [?e5])
      (Await_setTokenFn (Str ''abc2'') (Str ''r2'')) ([] @ [(Suc 0, ?b)]) (Suc (Suc (Suc 0)))
      (([Call_getRefreshTokenFn] @ [Call_post (refreshTokenEndpoint ?opts) [(''refreshToken'', ''r1'')]])
       @ [Call_setTokenFn (Str ''abc2'')])"
    by (rule in_cycle.refresh_call_answered [OF 4]) (simp add: default_options_def field_def)
  have 6: "in_cycle ?opts 0 ?a ((((([?e1] @ [?e2]) @ [?e3]) @ [?e4]) @ [?e5]) @ [?e6])
      (Await_setTokenFn (Str ''abc2'') (Str ''r2''))
      (([] @ [(Suc 0, ?b)]) @ [(Suc (Suc (Suc 0)), ?c)]) (Suc (Suc (Suc (Suc 0))))
      (([Call_getRefreshTokenFn] @ [Call_post (refreshTokenEndpoint ?opts) [(''refreshToken'', ''r1'')]])
       @ [Call_setTokenFn (Str ''abc2'')])"
    by (rule in_cycle.arrive [OF 5]) (simp_all add: default_options_def)
  have 7: "in_cycle ?opts 0 ?a (((((([?e1] @ [?e2]) @ [?e3]) @ [?e4]) @ [?e5]) @ [?e6]) @ [?e7])
      (Await_setRefreshTokenFn (Str ''abc2''))
      (([] @ [(Suc 0, ?b)]) @ [(Suc (Suc (Suc 0)), ?c)]) (Suc (Suc (Suc (Suc 0))))
      ((([Call_getRefreshTokenFn] @ [Call_post (refreshTokenEndpoint ?opts) [(''refreshToken'', ''r1'')]])
       @ [Call_setTokenFn (Str ''abc2'')]) @ [Call_setRefreshTokenFn (Str ''r2'')])"
    by (rule in_cycle.token_stored [OF 6])
  have ic: "in_cycle ?opts (length (tasks (run ?opts init []))) ?a [?e1, ?e2, ?e3, ?e4, ?e5, ?e6, ?e7]
      (Await_setRefreshTokenFn (Str ''abc2'')) [(1, ?b), (3, ?c)] 4
      [Call_getRefreshTokenFn, ?p, Call_setTokenFn (Str ''abc2''), Call_setRefreshTokenFn (Str ''r2'')]"
    using 7 by (simp add: init_def default_options_def eval_nat_numeral)
  have rf: "refresh_fails ?opts (Await_setRefreshTokenFn (Str ''abc2''))
      (Reject (Error ''quota exceeded'')) (Error ''quota exceeded'')"
    by (rule refresh_fails.setRefreshTokenFn_rejects)
  show ?thesis
    using one_refresh_for_all [where opts = ?opts and ?evs0.0 = "[]" and ?c0.0 = ?a
        and evs = "[?e1, ?e2, ?e3, ?e4, ?e5, ?e6, ?e7]"
        and k = "Await_setRefreshTokenFn (Str ''abc2'')" and ws = "[(1, ?b), (3, ?c)]" and n = 4
        and es = "[Call_getRefreshTokenFn, ?p, Call_setTokenFn (Str ''abc2''),
                   Call_setRefreshTokenFn (Str ''r2'')]"
        and tok = "''abc2''" and out = "Reject (Error ''quota exceeded'')"
        and err = "Error ''quota exceeded''" and rs = "[]" and rs' = "[]"] ic rf
    by (simp del: run_Cons step.simps
        add: Let_def init_def authorized_def default_options_def default_authHeaderPrefix_def)
qed

end
